theory Spec2Isabelle
  imports Main
begin

section \<open>A model of the dufs download client (dufs\_downloader.py)\<close>

text \<open>
  The client is modelled function by function. Text is \<open>string\<close>, one \<open>char\<close> per
  character: the model covers the characters below U+0100. The three marks that
  \<open>download_folder\<close> prints lie beyond and stand as their UTF-8 bytes.
  An exception is a value of \<open>py_error\<close>, and a function that can raise returns
  \<open>py_error + 'a\<close> with \<open>Inl\<close> for the exception. Only subclasses of Python's
  \<open>Exception\<close> are modelled: an interrupt from the keyboard while a call runs is not.
\<close>

subsection \<open>Python's string operations\<close>

definition py_isspace :: "char \<Rightarrow> bool" where
  \<comment> \<open>the characters below U+0100 for which \<open>str.isspace\<close> holds: \<open>str.strip()\<close> removes
      them\<close>
  "py_isspace c \<longleftrightarrow>
     c \<in> {CHR '' '', CHR 0x09, CHR 0x0A, CHR 0x0B, CHR 0x0C, CHR 0x0D,
          CHR 0x1C, CHR 0x1D, CHR 0x1E, CHR 0x1F, CHR 0x85, CHR 0xA0}"

definition int_space :: "char \<Rightarrow> bool" where
  \<comment> \<open>the characters that \<open>int()\<close> skips around a number: the whitespace of C, and the
      whitespace beyond ASCII, which \<open>int()\<close> first turns into spaces. The separators
      U+001C to U+001F are not among them.\<close>
  "int_space c \<longleftrightarrow>
     c \<in> {CHR '' '', CHR 0x09, CHR 0x0A, CHR 0x0B, CHR 0x0C, CHR 0x0D, CHR 0x85, CHR 0xA0}"

definition lstrip_chars :: "(char \<Rightarrow> bool) \<Rightarrow> string \<Rightarrow> string" where
  "lstrip_chars P s = dropWhile P s"

definition rstrip_chars :: "(char \<Rightarrow> bool) \<Rightarrow> string \<Rightarrow> string" where
  "rstrip_chars P s = rev (dropWhile P (rev s))"

definition py_strip :: "string \<Rightarrow> string" where
  \<comment> \<open>\<open>s.strip()\<close>\<close>
  "py_strip s = rstrip_chars py_isspace (lstrip_chars py_isspace s)"

definition is_slash :: "char \<Rightarrow> bool" where
  "is_slash c \<longleftrightarrow> c = CHR ''/''"

definition rstrip_slash :: "string \<Rightarrow> string" where
  \<comment> \<open>\<open>s.rstrip("/")\<close>\<close>
  "rstrip_slash s = rstrip_chars is_slash s"

definition lstrip_slash :: "string \<Rightarrow> string" where
  \<comment> \<open>\<open>s.lstrip("/")\<close>\<close>
  "lstrip_slash s = lstrip_chars is_slash s"

definition strip_slash :: "string \<Rightarrow> string" where
  \<comment> \<open>\<open>s.strip("/")\<close>\<close>
  "strip_slash s = rstrip_slash (lstrip_slash s)"

definition startswith :: "string \<Rightarrow> string \<Rightarrow> bool" where
  \<comment> \<open>\<open>s.startswith(p)\<close>\<close>
  "startswith s p \<longleftrightarrow> take (length p) s = p"

definition endswith :: "string \<Rightarrow> string \<Rightarrow> bool" where
  \<comment> \<open>\<open>s.endswith(p)\<close>\<close>
  "endswith s p \<longleftrightarrow> length p \<le> length s \<and> drop (length s - length p) s = p"

fun split_on :: "char \<Rightarrow> string \<Rightarrow> string list" where
  \<comment> \<open>\<open>s.split(c)\<close> for a separator of one character: never the empty list\<close>
  "split_on c [] = [[]]"
| "split_on c (x # xs) =
     (if x = c then [] # split_on c xs
      else (case split_on c xs of
              [] \<Rightarrow> [[x]]
            | w # ws \<Rightarrow> (x # w) # ws))"

fun py_join :: "string \<Rightarrow> string list \<Rightarrow> string" where
  \<comment> \<open>\<open>sep.join(parts)\<close>\<close>
  "py_join sep [] = []"
| "py_join sep [p] = p"
| "py_join sep (p # q # ps) = p @ sep @ py_join sep (q # ps)"

definition py_lines :: "string \<Rightarrow> string list" where
  \<comment> \<open>\<open>s.split("\n")\<close>\<close>
  "py_lines s = split_on (CHR 0x0A) s"

definition is_digit :: "char \<Rightarrow> bool" where
  \<comment> \<open>a decimal digit: what \<open>int()\<close> reads\<close>
  "is_digit c \<longleftrightarrow> c \<in> set ''0123456789''"

definition isdigit_char :: "char \<Rightarrow> bool" where
  \<comment> \<open>the characters below U+0100 for which \<open>str.isdigit\<close> holds: the decimal digits and
      the superscripts two, three and one\<close>
  "isdigit_char c \<longleftrightarrow> is_digit c \<or> c \<in> {CHR 0xB2, CHR 0xB3, CHR 0xB9}"

definition py_isdigit :: "string \<Rightarrow> bool" where
  \<comment> \<open>\<open>s.isdigit()\<close>\<close>
  "py_isdigit s \<longleftrightarrow> s \<noteq> [] \<and> (\<forall>c \<in> set s. isdigit_char c)"

definition digit_val :: "char \<Rightarrow> nat" where
  "digit_val c = of_char c - 48"

definition digits_val :: "string \<Rightarrow> nat" where
  "digits_val s = foldl (\<lambda>acc c. 10 * acc + digit_val c) 0 s"

definition py_int :: "nat \<Rightarrow> string \<Rightarrow> int option" where
  \<comment> \<open>\<open>int(s)\<close>, \<open>None\<close> for its ValueError: surrounding whitespace, one optional sign,
      then groups of decimal digits with single underscores between them. \<open>max_digits\<close> is
      the interpreter's limit on the digits of a conversion
      (\<open>sys.get_int_max_str_digits()\<close>, 4300 unless configured, 0 for no limit): a
      number of more than 640 digits that exceeds it is a ValueError.\<close>
  "py_int max_digits s =
     (let t = rstrip_chars int_space (lstrip_chars int_space s);
          neg = startswith t ''-'';
          body = (if startswith t ''-'' \<or> startswith t ''+'' then tl t else t);
          groups = split_on (CHR ''_'') body;
          digits = concat groups
      in if (\<forall>g \<in> set groups. g \<noteq> [] \<and> (\<forall>c \<in> set g. is_digit c))
            \<and> \<not> (max_digits > 0 \<and> length digits > max 640 max_digits)
         then Some ((if neg then - 1 else 1) * int (digits_val digits))
         else None)"

definition lower_char :: "char \<Rightarrow> char" where
  \<comment> \<open>\<open>c.lower()\<close> below U+0100: the letters A to Z, and the capital letters of Latin-1
      (U+00C0 to U+00DE, the multiplication sign apart)\<close>
  "lower_char c =
     (if ((65::nat) \<le> of_char c \<and> of_char c \<le> (90::nat))
         \<or> ((192::nat) \<le> of_char c \<and> of_char c \<le> (222::nat) \<and> of_char c \<noteq> (215::nat))
      then char_of (of_char c + (32::nat)) else c)"

definition py_lower :: "string \<Rightarrow> string" where
  \<comment> \<open>\<open>s.lower()\<close> on ASCII text\<close>
  "py_lower s = map lower_char s"

fun show_nat :: "nat \<Rightarrow> string" where
  \<comment> \<open>\<open>str(n)\<close> for a number that is not negative\<close>
  "show_nat n =
     (if n < 10 then [char_of (48 + n)]
      else show_nat (n div 10) @ [char_of (48 + n mod 10)])"

subsection \<open>normalize\_base\_url\<close>

definition normalize_base_url :: "string \<Rightarrow> string" where
  "normalize_base_url url0 =
     (let url = rstrip_slash (py_strip url0)
      in if \<not> (startswith url ''http://'' \<or> startswith url ''https://'')
         then ''http://'' @ url
         else url)"

subsection \<open>Exceptions\<close>

datatype exc_class =
    KeyError | TypeError | AttributeError | ValueError | RecursionError | OSError
  | OtherException

text \<open>
  An exception has its class and the text \<open>str(e)\<close>. \<open>OSError\<close> covers its subclasses
  (\<open>URLError\<close>, \<open>HTTPError\<close>, timeouts, \<open>FileExistsError\<close>, ...). The texts of
  the exceptions that the interpreter and the library raise are not modelled: these carry
  the empty text.
\<close>

datatype py_error = Raised exc_class string

fun exc_class_of :: "py_error \<Rightarrow> exc_class" where
  "exc_class_of (Raised c m) = c"

fun exc_text :: "py_error \<Rightarrow> string" where
  \<comment> \<open>\<open>str(e)\<close>\<close>
  "exc_text (Raised c m) = m"

subsection \<open>Decoded JSON\<close>

text \<open>
  What \<open>json.loads\<close> returns. The value of a boolean or a number is never inspected
  by the client, so the model does not keep it. An object keeps its member \<open>name\<close> apart
  from the other members, typed as text: \<open>list_directory\<close> returns that member as it is,
  under its annotation \<open>list[tuple[str, bool]]\<close>, so a response whose \<open>name\<close> is
  not a string is excluded by the type.
\<close>

datatype json =
    JNull | JBool | JNum | JStr string | JArr "json list"
  | JObj "string option" "(string \<times> json) list"

subsection \<open>The environment\<close>

type_synonym path = "string list"
  \<comment> \<open>a resolved absolute local path, as its components\<close>

datatype node = Dir | File string

type_synonym filesystem = "path \<Rightarrow> node option"

datatype tool = Wget | Curl

text \<open>
  Everything outside the program is a field of \<open>world\<close>: the server's answers, the
  JSON decoder, the external tools, faults of the local file system (permissions, a full
  disk) and of the console, the limits of the interpreter, and the part of \<open>urljoin\<close>
  that the model does not spell out.
\<close>

record world =
  urljoin_other :: "string \<Rightarrow> string \<Rightarrow> py_error + string"
  http_get :: "string \<Rightarrow> py_error + string"
    \<comment> \<open>\<open>urlopen(Request(url))\<close>, then \<open>resp.read().decode()\<close>\<close>
  json_loads :: "string \<Rightarrow> py_error + json"
  http_head :: "string \<Rightarrow> py_error + string option"
    \<comment> \<open>\<open>urlopen\<close> of a HEAD request, then \<open>resp.headers.get("Content-Length")\<close>\<close>
  http_download :: "string \<Rightarrow> py_error + string \<times> py_error option"
    \<comment> \<open>\<open>urlopen(Request(url))\<close> for the built-in copy: the bytes read, and the exception
        that ended the reading, if any\<close>
  has_wget :: bool
  has_curl :: bool
  run_tool :: "tool \<Rightarrow> string \<Rightarrow> path \<Rightarrow> filesystem \<Rightarrow> (py_error + int) \<times> filesystem"
    \<comment> \<open>\<open>subprocess.run\<close> of the tool on a URL and a local path: the return code (or the
        exception of \<open>subprocess.run\<close>), and the file system it leaves\<close>
  fs_fault :: "path \<Rightarrow> py_error option"
    \<comment> \<open>the fault, if any, of creating a directory or opening a file for writing there\<close>
  call_depth :: nat
    \<comment> \<open>the number of nested calls of \<open>collect_files_recursive\<close> that the interpreter's
        recursion limit leaves to the session\<close>
  int_max_str_digits :: nat
    \<comment> \<open>\<open>sys.get_int_max_str_digits()\<close>: 4300 unless configured, 0 for no limit\<close>
  stdout_fault :: "string list \<Rightarrow> string \<Rightarrow> py_error option"
    \<comment> \<open>the exception, if any, of printing a text after the texts printed so far\<close>

subsection \<open>urllib: urljoin and Request\<close>

text \<open>
  \<open>urllib.parse.urljoin\<close> is spelled out for the references the client builds from
  plain names and for the bases it gets from \<open>normalize_base_url\<close>: text of printable
  ASCII characters with no query, fragment or parameter marker and no bracket. Outside of
  that, \<open>urljoin\<close> is the environment's \<open>urljoin_other\<close>.
\<close>

definition plain_char :: "char \<Rightarrow> bool" where
  "plain_char c \<longleftrightarrow>
     (32::nat) < of_char c \<and> of_char c < (127::nat) \<and> c \<notin> set ''?#;[]''"

definition split_base :: "string \<Rightarrow> (string \<times> string \<times> string) option" where
  \<comment> \<open>\<open>urlparse(base)\<close> as (scheme, netloc, path)\<close>
  "split_base base =
     (if \<not> (\<forall>c \<in> set base. plain_char c) then None
      else if startswith base ''http://''
        then Some (''http'', takeWhile (\<lambda>c. c \<noteq> CHR ''/'') (drop 7 base),
                   dropWhile (\<lambda>c. c \<noteq> CHR ''/'') (drop 7 base))
      else if startswith base ''https://''
        then Some (''https'', takeWhile (\<lambda>c. c \<noteq> CHR ''/'') (drop 8 base),
                   dropWhile (\<lambda>c. c \<noteq> CHR ''/'') (drop 8 base))
      else if CHR '':'' \<notin> set base \<and> \<not> startswith base ''//''
        then Some ([], [], base)
      else None)"

definition plain_reference :: "string \<Rightarrow> bool" where
  \<comment> \<open>a reference that \<open>urlparse\<close> reads as a path and nothing else\<close>
  "plain_reference url \<longleftrightarrow>
     (\<forall>c \<in> set url. plain_char c) \<and> CHR '':'' \<notin> set url \<and> \<not> startswith url ''//''"

fun resolve_dots :: "string list \<Rightarrow> string list \<Rightarrow> string list" where
  \<comment> \<open>the loop of \<open>urljoin\<close> over the segments, \<open>resolved_path\<close> as accumulator\<close>
  "resolve_dots [] resolved = resolved"
| "resolve_dots (seg # segs) resolved =
     (if seg = ''..'' then resolve_dots segs (butlast resolved)
      else if seg = ''.'' then resolve_dots segs resolved
      else resolve_dots segs (resolved @ [seg]))"

definition drop_empty_inner :: "string list \<Rightarrow> string list" where
  \<comment> \<open>\<open>segments[1:-1] = filter(None, segments[1:-1])\<close>\<close>
  "drop_empty_inner segments =
     (if length segments < 2 then segments
      else hd segments # filter (\<lambda>s. s \<noteq> []) (butlast (tl segments)) @ [last segments])"

definition merge_paths :: "string \<Rightarrow> string \<Rightarrow> string" where
  \<comment> \<open>the path of \<open>urljoin\<close>'s result, from the base's path and a reference that is a
      path and is not empty\<close>
  "merge_paths bpath rpath =
     (let base_parts0 = split_on (CHR ''/'') bpath;
          base_parts = (if last base_parts0 \<noteq> [] then butlast base_parts0 else base_parts0);
          segments = (if take 1 rpath = ''/'' then split_on (CHR ''/'') rpath
                      else drop_empty_inner (base_parts @ split_on (CHR ''/'') rpath));
          resolved0 = resolve_dots segments [];
          resolved = (if last segments = ''.'' \<or> last segments = ''..''
                      then resolved0 @ [[]] else resolved0);
          joined = py_join ''/'' resolved
      in if joined = [] then ''/'' else joined)"

definition urlunsplit :: "string \<Rightarrow> string \<Rightarrow> string \<Rightarrow> string" where
  \<comment> \<open>\<open>urlunparse\<close> of scheme, netloc and path, for a scheme that is empty, \<open>http\<close>
      or \<open>https\<close>, with no parameters, query and fragment\<close>
  "urlunsplit scheme netloc upath =
     (let url = (if netloc \<noteq> [] \<or> (scheme \<noteq> [] \<and> take 2 upath \<noteq> ''//'')
                 then ''//'' @ netloc @ (if upath \<noteq> [] \<and> take 1 upath \<noteq> ''/''
                                          then ''/'' @ upath else upath)
                 else upath)
      in if scheme \<noteq> [] then scheme @ '':'' @ url else url)"

definition urljoin :: "world \<Rightarrow> string \<Rightarrow> string \<Rightarrow> py_error + string" where
  "urljoin w base url =
     (if base = [] then Inr url
      else if url = [] then Inr base
      else if plain_reference url then
        (case split_base base of
           Some (scheme, netloc, bpath) \<Rightarrow> Inr (urlunsplit scheme netloc (merge_paths bpath url))
         | None \<Rightarrow> urljoin_other w base url)
      else urljoin_other w base url)"

definition unwrap :: "string \<Rightarrow> string" where
  \<comment> \<open>\<open>urllib.parse.unwrap\<close>\<close>
  "unwrap url0 =
     (let url1 = py_strip url0;
          url2 = (if take 1 url1 = ''<'' \<and> url1 \<noteq> [] \<and> last url1 = CHR ''>''
                  then py_strip (butlast (tl url1)) else url1)
      in if take 4 url2 = ''URL:'' then py_strip (drop 4 url2) else url2)"

definition drop_tag :: "string \<Rightarrow> string" where
  \<comment> \<open>the first component of \<open>_splittag\<close>: the text before the last \<open>#\<close>\<close>
  "drop_tag url =
     (if CHR ''#'' \<in> set url
      then rev (tl (dropWhile (\<lambda>c. c \<noteq> CHR ''#'') (rev url)))
      else url)"

definition has_url_type :: "string \<Rightarrow> bool" where
  \<comment> \<open>\<open>_splittype\<close> finds a type: the text matches \<open>([^/:]+):(.*)\<close>\<close>
  "has_url_type url \<longleftrightarrow>
     (let pre = takeWhile (\<lambda>c. c \<noteq> CHR ''/'' \<and> c \<noteq> CHR '':'') url
      in pre \<noteq> [] \<and> take 1 (drop (length pre) url) = '':'')"

definition Request :: "string \<Rightarrow> py_error + string" where
  \<comment> \<open>the constructor \<open>Request(url)\<close>: ValueError "unknown url type" where the URL has
      no type, else the request, which the model identifies with its URL\<close>
  "Request url =
     (if has_url_type (drop_tag (unwrap url)) then Inr url else Inl (Raised ValueError []))"

subsection \<open>Listing a directory\<close>

definition listing_url :: "world \<Rightarrow> string \<Rightarrow> string \<Rightarrow> string \<Rightarrow> py_error + string" where
  \<comment> \<open>the first lines of \<open>fetch_json\<close> and of \<open>fetch_simple\<close>, which differ in the
      marker only\<close>
  "listing_url w base_url rpath marker =
     (case urljoin w (base_url @ ''/'') (lstrip_slash (if rpath \<noteq> [] then rpath else ''.'') @ ''/'') of
        Inl e \<Rightarrow> Inl e
      | Inr url \<Rightarrow>
          Request ((if \<not> endswith url ''/'' then url @ ''/'' else url) @ marker))"

definition fetch_json :: "world \<Rightarrow> string \<Rightarrow> string \<Rightarrow> py_error + json" where
  "fetch_json w base_url rpath =
     (case listing_url w base_url rpath ''?json'' of
        Inl e \<Rightarrow> Inl e
      | Inr req \<Rightarrow>
          (case http_get w req of
             Inl e \<Rightarrow> Inl e
           | Inr body \<Rightarrow> json_loads w body))"

fun simple_entries :: "string list \<Rightarrow> (string \<times> bool) list" where
  \<comment> \<open>the loop of \<open>fetch_simple\<close> over the lines\<close>
  "simple_entries [] = []"
| "simple_entries (line # lines) =
     (if line = [] then simple_entries lines
      else (rstrip_slash line, endswith line ''/'') # simple_entries lines)"

definition fetch_simple :: "world \<Rightarrow> string \<Rightarrow> string \<Rightarrow> py_error + (string \<times> bool) list" where
  "fetch_simple w base_url rpath =
     (case listing_url w base_url rpath ''?simple'' of
        Inl e \<Rightarrow> Inl e
      | Inr req \<Rightarrow>
          (case http_get w req of
             Inl e \<Rightarrow> Inl e
           | Inr body \<Rightarrow> Inr (simple_entries (py_lines (py_strip body)))))"

fun json_get :: "json \<Rightarrow> string \<Rightarrow> json option option" where
  \<comment> \<open>\<open>d.get(key)\<close> for a key other than \<open>name\<close>: the outer \<open>None\<close> is the
      AttributeError of a value that is not an object, the inner one a missing key\<close>
  "json_get (JObj nm members) key = Some (map_of members key)"
| "json_get _ key = None"

fun json_iter :: "json \<Rightarrow> json list option" where
  \<comment> \<open>\<open>for p in v\<close>: \<open>None\<close> is the TypeError of a value that is not iterable; text gives
      its characters and an object its keys, as text\<close>
  "json_iter (JArr items) = Some items"
| "json_iter (JStr s) = Some (map (\<lambda>c. JStr [c]) s)"
| "json_iter (JObj nm members) =
     Some ((case nm of None \<Rightarrow> [] | Some _ \<Rightarrow> [JStr ''name'']) @ map (\<lambda>(k, v). JStr k) members)"
| "json_iter _ = None"

fun entry_of :: "json \<Rightarrow> py_error + string \<times> bool" where
  \<comment> \<open>the body of the loop of \<open>list_directory\<close>\<close>
  "entry_of (JObj nm members) =
     (let name0 = (case nm of None \<Rightarrow> [] | Some s \<Rightarrow> s);
          is_dir = (case map_of members ''path_type'' of
                      Some (JStr t) \<Rightarrow> endswith t ''Dir''
                    | _ \<Rightarrow> False)
      in if name0 = [] \<and> map_of members ''href'' \<noteq> None then
           (case map_of members ''href'' of
              Some (JStr h) \<Rightarrow>
                (let href = rstrip_slash h
                 in Inr (if href \<noteq> [] then last (split_on (CHR ''/'') href) else [], is_dir))
            | _ \<Rightarrow> Inl (Raised AttributeError []))
         else Inr (name0, is_dir))"
| "entry_of _ = Inl (Raised AttributeError [])"

fun entries_of :: "json list \<Rightarrow> (string \<times> bool) list \<Rightarrow> py_error + (string \<times> bool) list" where
  \<comment> \<open>the loop of \<open>list_directory\<close>, \<open>result\<close> as accumulator\<close>
  "entries_of [] result = Inr result"
| "entries_of (p # ps) result =
     (case entry_of p of
        Inl e \<Rightarrow> Inl e
      | Inr entry \<Rightarrow> entries_of ps (result @ [entry]))"

definition parse_listing :: "json \<Rightarrow> py_error + (string \<times> bool) list" where
  \<comment> \<open>the body of the \<open>try\<close> of \<open>list_directory\<close>, after \<open>fetch_json\<close>\<close>
  "parse_listing data =
     (case json_get data ''paths'' of
        None \<Rightarrow> Inl (Raised AttributeError [])
      | Some None \<Rightarrow> Inr []
      | Some (Some paths) \<Rightarrow>
          (case json_iter paths of
             None \<Rightarrow> Inl (Raised TypeError [])
           | Some items \<Rightarrow> entries_of items []))"

definition list_directory :: "world \<Rightarrow> string \<Rightarrow> string \<Rightarrow> py_error + (string \<times> bool) list" where
  "list_directory w base_url rpath =
     (case (case fetch_json w base_url rpath of
              Inl e \<Rightarrow> Inl e
            | Inr data \<Rightarrow> parse_listing data) of
        Inl e \<Rightarrow>
          (if exc_class_of e = KeyError \<or> exc_class_of e = TypeError
           then fetch_simple w base_url rpath
           else Inl e)
      | Inr result \<Rightarrow> Inr result)"

subsection \<open>The size of a remote file\<close>

definition file_url :: "world \<Rightarrow> string \<Rightarrow> string \<Rightarrow> py_error + string" where
  \<comment> \<open>the first line of \<open>get_remote_size\<close> and of \<open>download_file\<close>\<close>
  "file_url w base_url remote_path = urljoin w (base_url @ ''/'') (lstrip_slash remote_path)"

definition get_remote_size :: "world \<Rightarrow> string \<Rightarrow> string \<Rightarrow> py_error + int option" where
  "get_remote_size w base_url remote_path =
     (case file_url w base_url remote_path of
        Inl e \<Rightarrow> Inl e
      | Inr url \<Rightarrow>
          (case Request url of
             Inl e \<Rightarrow> Inl e
           | Inr req \<Rightarrow>
               Inr (case http_head w req of
                      Inl e \<Rightarrow> None
                    | Inr None \<Rightarrow> None
                    | Inr (Some cl) \<Rightarrow> py_int (int_max_str_digits w) cl)))"

subsection \<open>Local paths and the file system\<close>

definition path_parts :: "string \<Rightarrow> string list" where
  \<comment> \<open>the components of a path given as text: pathlib drops the empty ones and \<open>.\<close>\<close>
  "path_parts s = filter (\<lambda>c. c \<noteq> [] \<and> c \<noteq> ''.'') (split_on (CHR ''/'') s)"

definition path_div :: "path \<Rightarrow> string \<Rightarrow> path" where
  \<comment> \<open>\<open>p / s\<close>: an absolute \<open>s\<close> replaces \<open>p\<close>\<close>
  "path_div p s = (if startswith s ''/'' then path_parts s else p @ path_parts s)"

definition resolve :: "path \<Rightarrow> path" where
  \<comment> \<open>\<open>p.resolve()\<close> of an absolute path, without symbolic links: \<open>..\<close> steps up\<close>
  "resolve p = foldl (\<lambda>acc c. if c = ''..'' then butlast acc else acc @ [c]) [] p"

definition path_name :: "path \<Rightarrow> string" where
  \<comment> \<open>\<open>p.name\<close>\<close>
  "path_name p = (if p = [] then [] else last p)"

definition path_str :: "path \<Rightarrow> string" where
  \<comment> \<open>\<open>str(p)\<close>\<close>
  "path_str p = ''/'' @ py_join ''/'' p"

definition is_dir_at :: "filesystem \<Rightarrow> path \<Rightarrow> bool" where
  "is_dir_at fs p \<longleftrightarrow> p = [] \<or> fs p = Some Dir"

definition is_file_at :: "filesystem \<Rightarrow> path \<Rightarrow> bool" where
  \<comment> \<open>\<open>p.exists() and p.is_file()\<close>\<close>
  "is_file_at fs p \<longleftrightarrow> (case fs p of Some (File content) \<Rightarrow> p \<noteq> [] | _ \<Rightarrow> False)"

definition ancestors :: "path \<Rightarrow> path list" where
  \<comment> \<open>the directories above a path, the root apart\<close>
  "ancestors p = map (\<lambda>n. take n p) [1..<length p]"

definition mkdir_parents :: "world \<Rightarrow> filesystem \<Rightarrow> path \<Rightarrow> py_error + filesystem" where
  \<comment> \<open>\<open>d.mkdir(parents=True, exist_ok=True)\<close>: nothing to do for a directory that
      exists; an OSError for a file in the way, at \<open>d\<close> or above\<close>
  "mkdir_parents w fs d =
     (if is_dir_at fs d then Inr fs
      else if fs d \<noteq> None then Inl (Raised OSError [])
      else if \<exists>a \<in> set (ancestors d). is_file_at fs a then Inl (Raised OSError [])
      else (case fs_fault w d of
              Some e \<Rightarrow> Inl e
            | None \<Rightarrow> Inr (\<lambda>q. if q \<in> set (d # ancestors d) \<and> fs q = None then Some Dir else fs q)))"

subsection \<open>The state that the downloads change\<close>

text \<open>
  \<open>disk\<close> is the local file system and \<open>out\<close> the texts that reached the console, one
  per call of the built-in \<open>print\<close>. \<open>transfers\<close> is not a variable of the program:
  it records each transfer that is started, by tool or by the built-in copy, as its URL
  and local path.
\<close>

record state =
  disk :: filesystem
  out :: "string list"
  transfers :: "(string \<times> path) list"

definition emit :: "string \<Rightarrow> state \<Rightarrow> state" where
  \<comment> \<open>the effect of a \<open>print\<close> that succeeds\<close>
  "emit text s = s\<lparr>out := out s @ [text]\<rparr>"

definition print :: "world \<Rightarrow> string \<Rightarrow> state \<Rightarrow> py_error + state" where
  \<comment> \<open>\<open>print(text)\<close>: the console may refuse the text (a UnicodeEncodeError for a
      character outside its encoding, an OSError for a closed pipe)\<close>
  "print w text s =
     (case stdout_fault w (out s) text of
        Some e \<Rightarrow> Inl e
      | None \<Rightarrow> Inr (emit text s))"

subsection \<open>download\_file\<close>

definition local_matches :: "world \<Rightarrow> string \<Rightarrow> string \<Rightarrow> path \<Rightarrow> filesystem \<Rightarrow> py_error + bool" where
  \<comment> \<open>the test for skipping: the local path is a file whose length is the remote size\<close>
  "local_matches w base_url remote_path local_path fs =
     (case fs local_path of
        Some (File content) \<Rightarrow>
          (if local_path = [] then Inr False
           else (case get_remote_size w base_url remote_path of
                   Inl e \<Rightarrow> Inl e
                 | Inr None \<Rightarrow> Inr False
                 | Inr (Some remote_size) \<Rightarrow>
                     Inr (remote_size \<ge> 0 \<and> int (length content) = remote_size)))
      | _ \<Rightarrow> Inr False)"

definition run_external :: "world \<Rightarrow> tool \<Rightarrow> string \<Rightarrow> path \<Rightarrow> state \<Rightarrow> (py_error + bool \<times> bool) \<times> state" where
  \<comment> \<open>\<open>subprocess.run([...], check=False)\<close>, then \<open>(ret.returncode == 0, False)\<close>\<close>
  "run_external w t url local_path s =
     (let (ret, fs') = run_tool w t url local_path (disk s);
          s' = s\<lparr>disk := fs', transfers := transfers s @ [(url, local_path)]\<rparr>
      in case ret of
           Inl e \<Rightarrow> (Inl e, s')
         | Inr returncode \<Rightarrow> (Inr (returncode = 0, False), s'))"

definition builtin_copy :: "world \<Rightarrow> string \<Rightarrow> path \<Rightarrow> state \<Rightarrow> (py_error + bool \<times> bool) \<times> state" where
  \<comment> \<open>the last branch of \<open>download_file\<close>: the file holds what was read before an
      exception, which propagates\<close>
  "builtin_copy w url local_path s =
     (case Request url of
        Inl e \<Rightarrow> (Inl e, s)
      | Inr req \<Rightarrow>
          (let s1 = s\<lparr>transfers := transfers s @ [(req, local_path)]\<rparr>
           in case http_download w req of
                Inl e \<Rightarrow> (Inl e, s1)
              | Inr (content, fault) \<Rightarrow>
                  (if is_dir_at (disk s1) local_path then (Inl (Raised OSError []), s1)
                   else (case fs_fault w local_path of
                           Some e \<Rightarrow> (Inl e, s1)
                         | None \<Rightarrow>
                             (let s2 = s1\<lparr>disk := (disk s1)(local_path \<mapsto> File content)\<rparr>
                              in case fault of
                                   Some e \<Rightarrow> (Inl e, s2)
                                 | None \<Rightarrow> (Inr (True, False), s2))))))"

definition download_file :: "world \<Rightarrow> string \<Rightarrow> string \<Rightarrow> path \<Rightarrow> state \<Rightarrow> (py_error + bool \<times> bool) \<times> state" where
  "download_file w base_url remote_path local_path0 s =
     (case file_url w base_url remote_path of
        Inl e \<Rightarrow> (Inl e, s)
      | Inr url \<Rightarrow>
          (let local_path = resolve local_path0
           in case mkdir_parents w (disk s) (butlast local_path) of
                Inl e \<Rightarrow> (Inl e, s)
              | Inr fs1 \<Rightarrow>
                  (let s1 = s\<lparr>disk := fs1\<rparr>
                   in case local_matches w base_url remote_path local_path fs1 of
                        Inl e \<Rightarrow> (Inl e, s1)
                      | Inr True \<Rightarrow> (Inr (True, True), s1)
                      | Inr False \<Rightarrow>
                          (if has_wget w then run_external w Wget url local_path s1
                           else if has_curl w then run_external w Curl url local_path s1
                           else builtin_copy w url local_path s1))))"

subsection \<open>collect\_files\_recursive\<close>

text \<open>
  The recursion follows the server's answers and has no bound of its own; the interpreter
  bounds it. \<open>depth\<close> is the number of nested calls that the recursion limit leaves:
  a call at depth 0 raises RecursionError.
\<close>

definition child_path :: "string \<Rightarrow> string \<Rightarrow> string" where
  "child_path remote_path name =
     (if remote_path \<noteq> [] then rstrip_slash remote_path @ ''/'' @ name else name)"

fun collect_loop ::
  "(string \<Rightarrow> py_error + string list) \<Rightarrow> string \<Rightarrow> (string \<times> bool) list \<Rightarrow> string list
   \<Rightarrow> py_error + string list" where
  \<comment> \<open>the loop over the items, \<open>files\<close> as accumulator, \<open>recurse\<close> the recursive call\<close>
  "collect_loop recurse remote_path [] files = Inr files"
| "collect_loop recurse remote_path ((name, is_dir) # items) files =
     (if name = ''.'' \<or> name = ''..'' then collect_loop recurse remote_path items files
      else if is_dir then
        (case recurse (child_path remote_path name) of
           Inl e \<Rightarrow> Inl e
         | Inr sub \<Rightarrow> collect_loop recurse remote_path items (files @ sub))
      else collect_loop recurse remote_path items (files @ [child_path remote_path name]))"

fun collect_files_recursive :: "world \<Rightarrow> nat \<Rightarrow> string \<Rightarrow> string \<Rightarrow> py_error + string list" where
  "collect_files_recursive w 0 base_url remote_path = Inl (Raised RecursionError [])"
| "collect_files_recursive w (Suc depth) base_url remote_path =
     (case list_directory w base_url remote_path of
        Inl e \<Rightarrow> Inl e
      | Inr items \<Rightarrow>
          collect_loop (collect_files_recursive w depth base_url) remote_path items [])"

subsection \<open>download\_folder\<close>

definition check_mark :: string where
  \<comment> \<open>U+2713, in UTF-8\<close>
  "check_mark = [CHR 0xE2, CHR 0x9C, CHR 0x93]"

definition cross_mark :: string where
  \<comment> \<open>U+2717, in UTF-8\<close>
  "cross_mark = [CHR 0xE2, CHR 0x9C, CHR 0x97]"

definition circled_dot :: string where
  \<comment> \<open>U+2299, in UTF-8\<close>
  "circled_dot = [CHR 0xE2, CHR 0x8A, CHR 0x99]"

definition relative_to :: "string \<Rightarrow> string \<Rightarrow> string" where
  \<comment> \<open>\<open>rel\<close> in the loop of \<open>download_folder\<close>\<close>
  "relative_to prefix file_path =
     (if startswith file_path prefix then drop (length prefix) file_path else file_path)"

definition folder_line :: "string \<Rightarrow> path \<Rightarrow> bool \<times> bool \<Rightarrow> string" where
  \<comment> \<open>the line printed inside the \<open>try\<close>, from the result of \<open>download_file\<close>\<close>
  "folder_line file_path local_file r =
     (case r of (ok, skipped) \<Rightarrow>
        (if ok then ''  '' @ (if skipped then circled_dot @ '' skipped (exists)'' else check_mark)
                    @ '': '' @ path_name local_file
         else ''  '' @ cross_mark @ '' failed: '' @ file_path))"

definition folder_failure :: "string \<Rightarrow> py_error \<Rightarrow> string" where
  \<comment> \<open>the line printed by the \<open>except\<close> clause\<close>
  "folder_failure file_path e =
     ''  '' @ cross_mark @ '' failed: '' @ file_path @ '': '' @ exc_text e"

definition folder_file ::
  "world \<Rightarrow> string \<Rightarrow> path \<Rightarrow> string \<Rightarrow> string \<Rightarrow> state \<Rightarrow> (py_error + unit) \<times> state" where
  \<comment> \<open>the body of the loop of \<open>download_folder\<close>. The \<open>try\<close> holds the call of
      \<open>download_file\<close> and the print of its result; the \<open>except\<close> clause prints the
      exception of either, and an exception of that print leaves the loop.\<close>
  "folder_file w base_url target_dir prefix file_path s =
     (let local_file = path_div target_dir (relative_to prefix file_path);
          (r, s1) = download_file w base_url file_path local_file s;
          tried = (case r of
                     Inl e \<Rightarrow> Inl e
                   | Inr result \<Rightarrow> print w (folder_line file_path local_file result) s1)
      in case tried of
           Inr s2 \<Rightarrow> (Inr (), s2)
         | Inl e \<Rightarrow>
             (case print w (folder_failure file_path e) s1 of
                Inl e' \<Rightarrow> (Inl e', s1)
              | Inr s2 \<Rightarrow> (Inr (), s2)))"

fun folder_loop ::
  "world \<Rightarrow> string \<Rightarrow> path \<Rightarrow> string \<Rightarrow> string list \<Rightarrow> state \<Rightarrow> (py_error + unit) \<times> state" where
  \<comment> \<open>the loop of \<open>download_folder\<close> over the collected files\<close>
  "folder_loop w base_url target_dir prefix [] s = (Inr (), s)"
| "folder_loop w base_url target_dir prefix (file_path # rest) s =
     (case folder_file w base_url target_dir prefix file_path s of
        (Inl e, s1) \<Rightarrow> (Inl e, s1)
      | (Inr u, s1) \<Rightarrow> folder_loop w base_url target_dir prefix rest s1)"

definition folder_target :: "string \<Rightarrow> path \<Rightarrow> path" where
  \<comment> \<open>\<open>target_dir\<close>: the local base and the last segment of the remote path, or \<open>download\<close>\<close>
  "folder_target remote_path local_base =
     (let last_part = last (split_on (CHR ''/'') (rstrip_slash remote_path));
          folder_name = (if last_part \<noteq> [] then last_part else ''download'')
      in path_div local_base folder_name)"

definition folder_prefix :: "string \<Rightarrow> string" where
  \<comment> \<open>\<open>prefix\<close>\<close>
  "folder_prefix remote_path = rstrip_slash remote_path @ ''/''"

definition folder_header :: "nat \<Rightarrow> path \<Rightarrow> string" where
  \<comment> \<open>the line printed before the loop\<close>
  "folder_header n target_dir =
     ''Downloading '' @ show_nat n @ '' file(s) to '' @ path_str target_dir"

definition download_folder :: "world \<Rightarrow> nat \<Rightarrow> string \<Rightarrow> string \<Rightarrow> path \<Rightarrow> state \<Rightarrow> (py_error + unit) \<times> state" where
  "download_folder w depth base_url remote_path local_base s =
     (case collect_files_recursive w depth base_url remote_path of
        Inl e \<Rightarrow> (Inl e, s)
      | Inr collected \<Rightarrow>
          (let target_dir = folder_target remote_path local_base;
               prefix = folder_prefix remote_path
           in case print w (folder_header (length collected) target_dir) s of
                Inl e \<Rightarrow> (Inl e, s)
              | Inr s1 \<Rightarrow> folder_loop w base_url target_dir prefix collected s1))"

subsection \<open>interactive\_download\<close>

text \<open>
  One iteration of the loop of \<open>interactive_download\<close> is a step on the session: the
  current path and the state. The line read by \<open>input\<close> is the step's event, and
  \<open>EndOfInput\<close> is the EOFError or the KeyboardInterrupt at the prompt: the event says
  that the prompt was reached, so the prints of the listing before it are taken to have
  succeeded (\<open>emit\<close>). Every print after the prompt may fail. The prompt itself is not
  written with \<open>print\<close> and is not part of \<open>out\<close>.
\<close>

datatype input_event = Line string | EndOfInput

datatype outcome = Continue | Return | Raises py_error

record session =
  current_path :: string
  sys :: state

definition rule_line :: string where
  \<comment> \<open>\<open>"=" * 50\<close>\<close>
  "rule_line = replicate 50 (CHR ''='')"

definition pad3 :: "string \<Rightarrow> string" where
  \<comment> \<open>the format \<open>{i:3}\<close>\<close>
  "pad3 t = replicate (3 - length t) (CHR '' '') @ t"

fun print_items :: "nat \<Rightarrow> (string \<times> bool) list \<Rightarrow> state \<Rightarrow> state" where
  \<comment> \<open>the loop over \<open>enumerate(items, 1)\<close>\<close>
  "print_items i [] s = s"
| "print_items i ((name, is_dir) # items) s =
     print_items (Suc i) items
       (emit (''  '' @ pad3 (show_nat i) @ ''. '' @ (if is_dir then ''[dir]'' else ''[file]'')
              @ '' '' @ name) s)"

definition print_header :: "string \<Rightarrow> state \<Rightarrow> state" where
  "print_header cur s =
     emit rule_line
       (emit (if cur \<noteq> [] then ''Current path: /'' @ cur else ''Current path: / (root)'')
         (emit (CHR 0x0A # rule_line) s))"

definition print_menu :: "state \<Rightarrow> state" where
  "print_menu s =
     foldl (\<lambda>acc line. emit line acc) s
       [CHR 0x0A # ''Commands:'',
        ''  - number (e.g. 1): enter dir or download file'',
        ''  - d+number (e.g. d1): download selected file or folder'',
        ''  - .. or cd ..: go to parent directory'',
        ''  - q or quit: exit'',
        []]"

definition print_listing :: "(string \<times> bool) list \<Rightarrow> state \<Rightarrow> state" where
  \<comment> \<open>the entries, or the note of an empty directory, and then the commands\<close>
  "print_listing items s =
     print_menu (if items = [] then emit ''(empty directory)'' s else print_items 1 items s)"

definition parent_path :: "string \<Rightarrow> string" where
  \<comment> \<open>the new current path for the input \<open>..\<close>\<close>
  "parent_path cur =
     (if cur \<noteq> [] then
        (let parts = split_on (CHR ''/'') (rstrip_slash cur)
         in if length parts > 1 then py_join ''/'' (butlast parts) else [])
      else cur)"

definition target_of :: "string \<Rightarrow> string \<Rightarrow> string" where
  \<comment> \<open>\<open>target_path\<close>\<close>
  "target_of cur name = (if cur \<noteq> [] then strip_slash (cur @ ''/'' @ name) else name)"

definition file_line :: "string \<Rightarrow> path \<Rightarrow> bool \<times> bool \<Rightarrow> string" where
  \<comment> \<open>the line printed inside the \<open>try\<close> of the session, from the result of
      \<open>download_file\<close>\<close>
  "file_line target_path local_file r =
     (case r of (ok, skipped) \<Rightarrow>
        (if ok then (if skipped then ''Skipped (exists)'' else ''Downloaded'')
                    @ '': '' @ path_str local_file
         else ''Download failed: '' @ target_path))"

definition fetch_file ::
  "world \<Rightarrow> string \<Rightarrow> path \<Rightarrow> string \<Rightarrow> string \<Rightarrow> state \<Rightarrow> (py_error + unit) \<times> state" where
  \<comment> \<open>the download of one file to \<open>save_dir / name\<close>, with its \<open>try\<close>: the \<open>except\<close>
      clause prints the exception of \<open>download_file\<close> or of the print of its result, and
      an exception of that print propagates\<close>
  "fetch_file w base_url save_dir target_path name s =
     (let local_file = path_div save_dir name;
          (r, s1) = download_file w base_url target_path local_file s;
          tried = (case r of
                     Inl e \<Rightarrow> Inl e
                   | Inr result \<Rightarrow> print w (file_line target_path local_file result) s1)
      in case tried of
           Inr s2 \<Rightarrow> (Inr (), s2)
         | Inl e \<Rightarrow>
             (case print w (''Download failed: '' @ exc_text e) s1 of
                Inl e' \<Rightarrow> (Inl e', s1)
              | Inr s2 \<Rightarrow> (Inr (), s2)))"

definition fetch_folder ::
  "world \<Rightarrow> string \<Rightarrow> path \<Rightarrow> string \<Rightarrow> state \<Rightarrow> (py_error + unit) \<times> state" where
  \<comment> \<open>\<open>download_folder\<close> with the \<open>try\<close> of the session\<close>
  "fetch_folder w base_url save_dir target_path s =
     (let (r, s1) = download_folder w (call_depth w) base_url target_path save_dir s
      in case r of
           Inr u \<Rightarrow> (Inr (), s1)
         | Inl e \<Rightarrow>
             (case print w (''Download failed: '' @ exc_text e) s1 of
                Inl e' \<Rightarrow> (Inl e', s1)
              | Inr s2 \<Rightarrow> (Inr (), s2)))"

definition carry_on :: "(py_error + unit) \<times> state \<Rightarrow> session \<Rightarrow> outcome \<times> session" where
  \<comment> \<open>the session after a download: the loop continues, or the exception ends it\<close>
  "carry_on r ss =
     (case r of
        (Inl e, s) \<Rightarrow> (Raises e, ss\<lparr>sys := s\<rparr>)
      | (Inr u, s) \<Rightarrow> (Continue, ss\<lparr>sys := s\<rparr>))"

definition say :: "world \<Rightarrow> string \<Rightarrow> outcome \<Rightarrow> session \<Rightarrow> outcome \<times> session" where
  \<comment> \<open>a print outside any \<open>try\<close>, and what the loop does after it\<close>
  "say w text then_do ss =
     (case print w text (sys ss) of
        Inl e \<Rightarrow> (Raises e, ss)
      | Inr s \<Rightarrow> (then_do, ss\<lparr>sys := s\<rparr>))"

definition by_number ::
  "world \<Rightarrow> string \<Rightarrow> path \<Rightarrow> (string \<times> bool) list \<Rightarrow> bool \<Rightarrow> string \<Rightarrow> session
   \<Rightarrow> outcome \<times> session" where
  \<comment> \<open>the branch \<open>if user_input.isdigit()\<close>; \<open>int(user_input)\<close> is under no \<open>try\<close>\<close>
  "by_number w base_url save_dir items force_download user_input ss =
     (case py_int (int_max_str_digits w) user_input of
        None \<Rightarrow> (Raises (Raised ValueError []), ss)
      | Some idx \<Rightarrow>
          (if 1 \<le> idx \<and> idx \<le> int (length items) then
             (let (name, is_dir) = items ! nat (idx - 1);
                  target_path = target_of (current_path ss) name
              in if is_dir \<and> \<not> force_download then (Continue, ss\<lparr>current_path := target_path\<rparr>)
                 else if is_dir
                   then carry_on (fetch_folder w base_url save_dir target_path (sys ss)) ss
                 else carry_on (fetch_file w base_url save_dir target_path name (sys ss)) ss)
           else say w ''Invalid number'' Continue ss))"

definition by_name ::
  "world \<Rightarrow> string \<Rightarrow> path \<Rightarrow> (string \<times> bool) list \<Rightarrow> string \<Rightarrow> session \<Rightarrow> outcome \<times> session" where
  \<comment> \<open>the end of the loop's body: the input is the name of an entry\<close>
  "by_name w base_url save_dir items name ss =
     (let target_path = target_of (current_path ss) name
      in case filter (\<lambda>(n, d). n = name) items of
           [] \<Rightarrow> say w ''Not found'' Continue ss
         | (n, is_dir) # others \<Rightarrow>
             (if is_dir then (Continue, ss\<lparr>current_path := target_path\<rparr>)
              else carry_on (fetch_file w base_url save_dir target_path name (sys ss)) ss))"

definition dispatch ::
  "world \<Rightarrow> string \<Rightarrow> path \<Rightarrow> (string \<times> bool) list \<Rightarrow> string \<Rightarrow> session \<Rightarrow> outcome \<times> session" where
  \<comment> \<open>the loop's body after \<open>input\<close>, on the stripped line\<close>
  "dispatch w base_url save_dir items user_input ss =
     (if user_input = [] then (Continue, ss)
      else if py_lower user_input \<in> {''q'', ''quit'', ''exit''}
        then say w ''Bye!'' Return ss
      else if user_input = ''..'' \<or> user_input = ''cd ..''
        then (Continue, ss\<lparr>current_path := parent_path (current_path ss)\<rparr>)
      else
        (let force_download = (startswith (py_lower user_input) ''d''
                               \<and> py_isdigit (py_strip (tl user_input)));
             user_input1 = (if force_download then py_strip (tl user_input) else user_input)
         in if py_isdigit user_input1
            then by_number w base_url save_dir items force_download user_input1 ss
            else by_name w base_url save_dir items user_input1 ss))"

definition interactive_step ::
  "world \<Rightarrow> string \<Rightarrow> path \<Rightarrow> session \<Rightarrow> input_event \<Rightarrow> outcome \<times> session" where
  "interactive_step w base_url save_dir ss event =
     (let s1 = print_header (current_path ss) (sys ss)
      in case list_directory w base_url (current_path ss) of
           Inl e \<Rightarrow> say w (''Failed to list: '' @ exc_text e) Return (ss\<lparr>sys := s1\<rparr>)
         | Inr items \<Rightarrow>
             (let s2 = print_listing items s1
              in case event of
                   EndOfInput \<Rightarrow> say w (CHR 0x0A # ''Bye!'') Return (ss\<lparr>sys := s2\<rparr>)
                 | Line text \<Rightarrow>
                     dispatch w base_url save_dir items (py_strip text) (ss\<lparr>sys := s2\<rparr>)))"

subsection \<open>What the claims speak of\<close>

text \<open>
  The definitions from here on are not functions of the program: they state what the
  specification says, or fix an example, for the theorems below.
\<close>

text \<open>
  A remote tree, as the entries of a directory: a file, or a directory with its own
  entries. \<open>spec_collect\<close> is the collector as the specification words it: a depth-first
  pre-order walk that skips \<open>.\<close> and \<open>..\<close>, joins the current path and the name, and
  lists files only.
\<close>

datatype tree = TFile string | TDir string "tree list"

fun tree_entry :: "tree \<Rightarrow> string \<times> bool" where
  "tree_entry (TFile name) = (name, False)"
| "tree_entry (TDir name kids) = (name, True)"

definition spec_join :: "string \<Rightarrow> string \<Rightarrow> string" where
  "spec_join cur name = (if cur = [] then name else cur @ ''/'' @ name)"

fun spec_collect :: "string \<Rightarrow> tree list \<Rightarrow> string list" where
  "spec_collect cur [] = []"
| "spec_collect cur (TFile name # ts) =
     (if name = ''.'' \<or> name = ''..'' then [] else [spec_join cur name]) @ spec_collect cur ts"
| "spec_collect cur (TDir name kids # ts) =
     (if name = ''.'' \<or> name = ''..'' then [] else spec_collect (spec_join cur name) kids)
     @ spec_collect cur ts"

fun tree_names_ok :: "tree list \<Rightarrow> bool" where
  \<comment> \<open>every name is a single segment: not empty, no slash\<close>
  "tree_names_ok [] \<longleftrightarrow> True"
| "tree_names_ok (TFile name # ts) \<longleftrightarrow>
     name \<noteq> [] \<and> CHR ''/'' \<notin> set name \<and> tree_names_ok ts"
| "tree_names_ok (TDir name kids # ts) \<longleftrightarrow>
     name \<noteq> [] \<and> CHR ''/'' \<notin> set name \<and> tree_names_ok kids \<and> tree_names_ok ts"

fun height :: "tree list \<Rightarrow> nat" where
  \<comment> \<open>the number of nested directories below the entries\<close>
  "height [] = 0"
| "height (TFile name # ts) = height ts"
| "height (TDir name kids # ts) = max (Suc (height kids)) (height ts)"

fun subdirs_served :: "world \<Rightarrow> string \<Rightarrow> string \<Rightarrow> tree list \<Rightarrow> bool" where
  \<comment> \<open>below the entries, the server lists every directory that the collector enters\<close>
  "subdirs_served w base_url cur [] \<longleftrightarrow> True"
| "subdirs_served w base_url cur (TFile name # ts) \<longleftrightarrow> subdirs_served w base_url cur ts"
| "subdirs_served w base_url cur (TDir name kids # ts) \<longleftrightarrow>
     (name = ''.'' \<or> name = ''..'' \<or>
      (list_directory w base_url (spec_join cur name) = Inr (map tree_entry kids)
       \<and> subdirs_served w base_url (spec_join cur name) kids))
     \<and> subdirs_served w base_url cur ts"

definition serves :: "world \<Rightarrow> string \<Rightarrow> string \<Rightarrow> tree list \<Rightarrow> bool" where
  \<comment> \<open>the server's listings at a path and below are the tree's, in the tree's order\<close>
  "serves w base_url cur ts \<longleftrightarrow>
     list_directory w base_url cur = Inr (map tree_entry ts) \<and> subdirs_served w base_url cur ts"

text \<open>
  Well-formed bases and remote paths: a base is a scheme and an authority, a remote
  path is a sequence of names, joined with slashes. The names have no character that a
  URL reads as a marker, and none is \<open>.\<close> or \<open>..\<close>.
\<close>

definition url_segment :: "string \<Rightarrow> bool" where
  "url_segment seg \<longleftrightarrow>
     seg \<noteq> [] \<and> seg \<noteq> ''.'' \<and> seg \<noteq> ''..''
     \<and> (\<forall>c \<in> set seg. plain_char c \<and> c \<noteq> CHR ''/'' \<and> c \<noteq> CHR '':'')"

definition remote_path_of :: "string list \<Rightarrow> string" where
  "remote_path_of segs = py_join ''/'' segs"

definition well_formed_path :: "string list \<Rightarrow> bool" where
  "well_formed_path segs \<longleftrightarrow> (\<forall>seg \<in> set segs. url_segment seg)"

definition base_of :: "string \<Rightarrow> string \<Rightarrow> string" where
  "base_of scheme authority = scheme @ ''://'' @ authority"

definition well_formed_base :: "string \<Rightarrow> string \<Rightarrow> bool" where
  "well_formed_base scheme authority \<longleftrightarrow>
     (scheme = ''http'' \<or> scheme = ''https'')
     \<and> authority \<noteq> [] \<and> (\<forall>c \<in> set authority. plain_char c \<and> c \<noteq> CHR ''/'')"

text \<open>
  One turn of the loop of \<open>download_folder\<close> as the claim words it: \<open>download_file\<close>
  is called for the file, and one line is printed, the failure line where the call raised
  an exception.
\<close>

definition attempt_and_report ::
  "world \<Rightarrow> string \<Rightarrow> path \<Rightarrow> string \<Rightarrow> state \<Rightarrow> string \<Rightarrow> state" where
  "attempt_and_report w base_url target_dir prefix s file_path =
     (let local_file = path_div target_dir (relative_to prefix file_path);
          (r, s1) = download_file w base_url file_path local_file s
      in emit (case r of
                 Inl e \<Rightarrow> folder_failure file_path e
               | Inr result \<Rightarrow> folder_line file_path local_file result) s1)"

text \<open>
  An example: a server at \<open>http://host:6008\<close> with the folder \<open>A\<close> of the
  specification, \<open>A/{x.txt, B/{y.txt}}\<close>, a folder \<open>C\<close> whose structured listing is
  an object without \<open>paths\<close>, and a folder \<open>D\<close> whose structured listing has
  \<open>null\<close> for \<open>paths\<close>. The bodies of the structured listings stand for their
  JSON text, which the decoder of the example maps to the decoded value. The machine has
  no external tool; the download of \<open>A/B/y.txt\<close> times out. The console accepts
  every text, and the interpreter has its default limits.
\<close>

definition example_get :: "string \<Rightarrow> py_error + string" where
  "example_get url =
     (if url = ''http://host:6008/A/?json'' then Inr ''json of A''
      else if url = ''http://host:6008/A/B/?json'' then Inr ''json of A/B''
      else if url = ''http://host:6008/C/?json'' then Inr ''json of C''
      else if url = ''http://host:6008/C/?simple'' then Inr (''a.txt'' @ [CHR 0x0A] @ ''sub/'')
      else if url = ''http://host:6008/D/?json'' then Inr ''json of D''
      else if url = ''http://host:6008/D/?simple'' then Inr (''b.txt'' @ [CHR 0x0A] @ ''sub/'')
      else Inl (Raised OSError ''HTTP Error 404: Not Found''))"

definition example_loads :: "string \<Rightarrow> py_error + json" where
  "example_loads body =
     (if body = ''json of A'' then
        Inr (JObj None [(''paths'', JArr [JObj (Some ''x.txt'') [(''path_type'', JStr ''File'')],
                                          JObj (Some ''B'') [(''path_type'', JStr ''Dir'')]])])
      else if body = ''json of A/B'' then
        Inr (JObj None [(''paths'', JArr [JObj (Some ''y.txt'') [(''path_type'', JStr ''File'')]])])
      else if body = ''json of C'' then Inr (JObj None [])
      else if body = ''json of D'' then Inr (JObj None [(''paths'', JNull)])
      else Inl (Raised ValueError ''Expecting value''))"

definition example_world :: world where
  "example_world =
     \<lparr>urljoin_other = (\<lambda>base url. Inl (Raised ValueError [])),
      http_get = example_get,
      json_loads = example_loads,
      http_head = (\<lambda>url. if url = ''http://host:6008/A/x.txt'' then Inr (Some ''5'')
                           else Inl (Raised OSError ''HTTP Error 404: Not Found'')),
      http_download = (\<lambda>url. if url = ''http://host:6008/A/x.txt'' then Inr (''hello'', None)
                               else Inl (Raised OSError ''timed out'')),
      has_wget = False,
      has_curl = False,
      run_tool = (\<lambda>t url local_path fs. (Inr 0, fs)),
      fs_fault = (\<lambda>p. None),
      call_depth = 900,
      int_max_str_digits = 4300,
      stdout_fault = (\<lambda>printed text. None)\<rparr>"

definition ascii_console :: "string list \<Rightarrow> string \<Rightarrow> py_error option" where
  \<comment> \<open>a console whose encoding is ASCII: the UnicodeEncodeError, a ValueError, for any
      other character\<close>
  "ascii_console printed text =
     (if \<forall>c \<in> set text. of_char c < (128::nat) then None
      else Some (Raised ValueError ''ordinal not in range(128)''))"

definition ascii_world :: world where
  \<comment> \<open>the example, on a console whose encoding is ASCII\<close>
  "ascii_world = example_world\<lparr>stdout_fault := ascii_console\<rparr>"

definition example_tree :: "tree list" where
  \<comment> \<open>the entries of \<open>A\<close>\<close>
  "example_tree = [TFile ''x.txt'', TDir ''B'' [TFile ''y.txt'']]"

definition example_state :: state where
  \<comment> \<open>the save directory \<open>/save\<close> holds \<open>x.txt\<close>, five bytes long\<close>
  "example_state =
     \<lparr>disk = (\<lambda>p. if p = [''save''] then Some Dir
                    else if p = [''save'', ''x.txt''] then Some (File ''hello'')
                    else None),
      out = [],
      transfers = []\<rparr>"

section \<open>Properties\<close>

subsection \<open>Stripping\<close>

lemma rstrip_chars_last: "rstrip_chars P s \<noteq> [] \<Longrightarrow> \<not> P (last (rstrip_chars P s))"
proof -
  assume ne: "rstrip_chars P s \<noteq> []"
  then have d: "dropWhile P (rev s) \<noteq> []"
    by (simp add: rstrip_chars_def)
  then have "\<not> P (hd (dropWhile P (rev s)))"
    by (rule hd_dropWhile)
  with d show ?thesis
    by (simp add: rstrip_chars_def last_rev)
qed

lemma endswith_slash_iff: "endswith s ''/'' \<longleftrightarrow> s \<noteq> [] \<and> last s = CHR ''/''"
proof (cases s rule: rev_cases)
  case Nil
  then show ?thesis by (simp add: endswith_def)
next
  case (snoc ys y)
  then show ?thesis by (auto simp: endswith_def)
qed

lemma rstrip_chars_decomp:
  "\<exists>suffix. s = rstrip_chars P s @ suffix \<and> (\<forall>c \<in> set suffix. P c)"
proof -
  have "rev (dropWhile P (rev s)) @ rev (takeWhile P (rev s))
        = rev (takeWhile P (rev s) @ dropWhile P (rev s))"
    by (simp only: rev_append)
  also have "\<dots> = s"
    by (simp only: takeWhile_dropWhile_id rev_rev_ident)
  finally have "s = rstrip_chars P s @ rev (takeWhile P (rev s))"
    by (simp only: rstrip_chars_def)
  moreover have "\<forall>c \<in> set (rev (takeWhile P (rev s))). P c"
    by (auto dest: set_takeWhileD)
  ultimately show ?thesis by blast
qed

lemma py_strip_decomp:
  "\<exists>lead trail. u = lead @ py_strip u @ trail
     \<and> (\<forall>c \<in> set lead. py_isspace c) \<and> (\<forall>c \<in> set trail. py_isspace c)
     \<and> (py_strip u = [] \<or> (\<not> py_isspace (hd (py_strip u)) \<and> \<not> py_isspace (last (py_strip u))))"
proof -
  let ?rest = "dropWhile py_isspace u"
  obtain trail where t: "?rest = py_strip u @ trail" "\<forall>c \<in> set trail. py_isspace c"
    using rstrip_chars_decomp [of ?rest py_isspace] by (auto simp: py_strip_def lstrip_chars_def)
  have u: "u = takeWhile py_isspace u @ py_strip u @ trail"
    using t(1) takeWhile_dropWhile_id [of py_isspace u] by simp
  have lead: "\<forall>c \<in> set (takeWhile py_isspace u). py_isspace c"
    by (auto dest: set_takeWhileD)
  have ends: "py_strip u = [] \<or> (\<not> py_isspace (hd (py_strip u)) \<and> \<not> py_isspace (last (py_strip u)))"
  proof (cases "py_strip u = []")
    case True
    then show ?thesis by simp
  next
    case False
    then have "?rest \<noteq> []"
      using t(1) by auto
    then have "\<not> py_isspace (hd ?rest)"
      by (rule hd_dropWhile)
    moreover from False t(1) have "hd ?rest = hd (py_strip u)"
      by simp
    moreover from False have "\<not> py_isspace (last (py_strip u))"
      unfolding py_strip_def by (rule rstrip_chars_last)
    ultimately show ?thesis by simp
  qed
  from u lead t(2) ends show ?thesis by blast
qed

lemma rstrip_slash_decomp:
  "\<exists>k. s = rstrip_slash s @ replicate k (CHR ''/'')
     \<and> (rstrip_slash s = [] \<or> last (rstrip_slash s) \<noteq> CHR ''/'')"
proof -
  obtain suffix where s: "s = rstrip_slash s @ suffix" "\<forall>c \<in> set suffix. is_slash c"
    using rstrip_chars_decomp [of s is_slash] by (auto simp: rstrip_slash_def)
  from s(2) have "replicate (length suffix) (CHR ''/'') = suffix"
    by (intro replicate_length_same) (simp add: is_slash_def)
  with s(1) have "s = rstrip_slash s @ replicate (length suffix) (CHR ''/'')"
    by simp
  moreover have "rstrip_slash s = [] \<or> last (rstrip_slash s) \<noteq> CHR ''/''"
    using rstrip_chars_last [of is_slash s] by (auto simp: rstrip_slash_def is_slash_def)
  ultimately show ?thesis by blast
qed

subsection \<open>C3: normalising the base URL\<close>

text \<open>
  C3, as the code has it. The input is whitespace, a text \<open>v\<close>, slashes and whitespace,
  where the whitespace at both ends is all there is (what lies between begins and ends
  with other characters) and \<open>v\<close> does not end with a slash. The result is \<open>v\<close> where
  \<open>v\<close> starts with \<open>http://\<close> or \<open>https://\<close>, and \<open>http://\<close> followed by
  \<open>v\<close> otherwise. So the result always starts with one of the two. The function
  never fails: where \<open>v\<close> is empty (the empty input among them) the result is
  \<open>http://\<close> itself, which ends with a slash; in every other case the result does
  not end with a slash.
\<close>

theorem normalize_base_url_result:
  "\<exists>lead v k trail.
      u = lead @ v @ replicate k (CHR ''/'') @ trail
    \<and> (\<forall>c \<in> set lead. py_isspace c) \<and> (\<forall>c \<in> set trail. py_isspace c)
    \<and> (v @ replicate k (CHR ''/'') = []
        \<or> (\<not> py_isspace (hd (v @ replicate k (CHR ''/'')))
            \<and> \<not> py_isspace (last (v @ replicate k (CHR ''/'')))))
    \<and> (v = [] \<or> last v \<noteq> CHR ''/'')
    \<and> normalize_base_url u
        = (if startswith v ''http://'' \<or> startswith v ''https://'' then v else ''http://'' @ v)
    \<and> (startswith (normalize_base_url u) ''http://'' \<or> startswith (normalize_base_url u) ''https://'')
    \<and> (v = [] \<longrightarrow> normalize_base_url u = ''http://'')
    \<and> (v \<noteq> [] \<longrightarrow> \<not> endswith (normalize_base_url u) ''/'')"
proof -
  let ?v = "rstrip_slash (py_strip u)"
  obtain lead trail where a: "u = lead @ py_strip u @ trail"
    "\<forall>c \<in> set lead. py_isspace c" "\<forall>c \<in> set trail. py_isspace c"
    "py_strip u = [] \<or> (\<not> py_isspace (hd (py_strip u)) \<and> \<not> py_isspace (last (py_strip u)))"
    using py_strip_decomp [of u] by blast
  obtain k where b: "py_strip u = ?v @ replicate k (CHR ''/'')" "?v = [] \<or> last ?v \<noteq> CHR ''/''"
    using rstrip_slash_decomp [of "py_strip u"] by blast
  have c1: "u = lead @ ?v @ replicate k (CHR ''/'') @ trail"
    using a(1) b(1) by (metis append.assoc)
  have c4: "?v @ replicate k (CHR ''/'') = []
        \<or> (\<not> py_isspace (hd (?v @ replicate k (CHR ''/'')))
            \<and> \<not> py_isspace (last (?v @ replicate k (CHR ''/''))))"
    using a(4) b(1) by metis
  have res: "normalize_base_url u
        = (if startswith ?v ''http://'' \<or> startswith ?v ''https://'' then ?v else ''http://'' @ ?v)"
    by (simp add: normalize_base_url_def Let_def)
  have scheme: "startswith (normalize_base_url u) ''http://'' \<or> startswith (normalize_base_url u) ''https://''"
    by (auto simp: normalize_base_url_def Let_def startswith_def)
  have empty: "?v = [] \<longrightarrow> normalize_base_url u = ''http://''"
    by (simp add: normalize_base_url_def Let_def startswith_def)
  have slash: "?v \<noteq> [] \<longrightarrow> \<not> endswith (normalize_base_url u) ''/''"
  proof
    assume ne: "?v \<noteq> []"
    with b(2) have l: "last ?v \<noteq> CHR ''/''"
      by simp
    have "last (normalize_base_url u) = last ?v"
      using ne by (simp add: normalize_base_url_def Let_def)
    with l show "\<not> endswith (normalize_base_url u) ''/''"
      by (simp add: endswith_slash_iff)
  qed
  from c1 a(2) a(3) c4 b(2) res scheme empty slash show ?thesis
    by blast
qed

theorem normalize_base_url_witness:
  "normalize_base_url '' example.org:6008// '' = ''http://example.org:6008''
   \<and> normalize_base_url '' https://example.org/ '' = ''https://example.org''
   \<and> \<not> endswith (normalize_base_url '' example.org:6008// '') ''/''"
  using normalize_base_url_result [of "'' example.org:6008// ''"]
  by (simp add: normalize_base_url_def py_strip_def rstrip_slash_def rstrip_chars_def
      lstrip_chars_def py_isspace_def is_slash_def startswith_def endswith_def Let_def)

text \<open>
  The claim as the spec words it fails at the empty input: the function returns
  \<open>http://\<close>, a result that ends with a slash, and does not fail.
\<close>

theorem normalize_base_url_empty_counterexample:
  "normalize_base_url [] = ''http://'' \<and> endswith (normalize_base_url []) ''/''"
  by (simp add: normalize_base_url_def py_strip_def rstrip_slash_def rstrip_chars_def
      lstrip_chars_def startswith_def endswith_def Let_def)

subsection \<open>Splitting and joining\<close>

lemma rstrip_chars_id: "s = [] \<or> \<not> P (last s) \<Longrightarrow> rstrip_chars P s = s"
  by (cases s rule: rev_cases) (auto simp: rstrip_chars_def)

lemma lstrip_chars_id: "s = [] \<or> \<not> P (hd s) \<Longrightarrow> lstrip_chars P s = s"
  by (cases s) (auto simp: lstrip_chars_def)

lemma split_on_not_Nil: "split_on c s \<noteq> []"
  by (induction s) (auto split: list.splits)

lemma split_on_nosep: "c \<notin> set s \<Longrightarrow> split_on c s = [s]"
  by (induction s) auto

lemma split_on_append: "c \<notin> set s \<Longrightarrow> split_on c (s @ c # t) = s # split_on c t"
  by (induction s) (auto split: list.splits)

lemma py_join_Cons: "ps \<noteq> [] \<Longrightarrow> py_join sep (p # ps) = p @ sep @ py_join sep ps"
  by (cases ps) auto

lemma split_on_join:
  "segs \<noteq> [] \<Longrightarrow> \<forall>s \<in> set segs. c \<notin> set s \<Longrightarrow> split_on c (py_join [c] segs) = segs"
proof (induction segs)
  case Nil
  then show ?case by simp
next
  case (Cons s segs)
  show ?case
  proof (cases segs)
    case Nil
    with Cons.prems show ?thesis by (simp add: split_on_nosep)
  next
    case (Cons t ts)
    with Cons.prems Cons.IH show ?thesis
      by (simp add: split_on_append)
  qed
qed

lemma py_join_snoc: "ps \<noteq> [] \<Longrightarrow> py_join sep (ps @ [p]) = py_join sep ps @ sep @ p"
  by (induction sep ps rule: py_join.induct) auto

lemma py_join_eq_Nil: "\<forall>s \<in> set segs. s \<noteq> [] \<Longrightarrow> py_join sep segs = [] \<longleftrightarrow> segs = []"
  by (induction sep segs rule: py_join.induct) auto

lemma last_py_join:
  "segs \<noteq> [] \<Longrightarrow> last segs \<noteq> [] \<Longrightarrow>
   py_join sep segs \<noteq> [] \<and> last (py_join sep segs) = last (last segs)"
  by (induction sep segs rule: py_join.induct) auto

subsection \<open>The example server\<close>

lemma example_list_A:
  "list_directory example_world ''http://host:6008'' ''A'' = Inr [(''x.txt'', False), (''B'', True)]"
  by code_simp

lemma example_list_AB:
  "list_directory example_world ''http://host:6008'' ''A/B'' = Inr [(''y.txt'', False)]"
  by code_simp

subsection \<open>C7: the parent directory\<close>

lemma parent_path_join:
  assumes "\<forall>seg \<in> set segs. seg \<noteq> [] \<and> CHR ''/'' \<notin> set seg"
  shows "parent_path (py_join ''/'' segs) = py_join ''/'' (butlast segs)"
proof (cases "segs = []")
  case True
  then show ?thesis by (simp add: parent_path_def)
next
  case False
  let ?cur = "py_join ''/'' segs"
  from False assms have ne: "?cur \<noteq> []"
    by (simp add: py_join_eq_Nil)
  from False assms have l: "last segs \<noteq> []" "CHR ''/'' \<notin> set (last segs)"
    by auto
  then have "last (last segs) \<noteq> CHR ''/''"
    using last_in_set by metis
  with False l have "last ?cur \<noteq> CHR ''/''"
    by (simp add: last_py_join)
  then have r: "rstrip_slash ?cur = ?cur"
    by (simp add: rstrip_slash_def rstrip_chars_id is_slash_def)
  from False assms have sp: "split_on (CHR ''/'') ?cur = segs"
    by (simp add: split_on_join)
  show ?thesis
  proof (cases "length segs > 1")
    case True
    with ne r sp show ?thesis by (simp add: parent_path_def Let_def)
  next
    case False
    with \<open>segs \<noteq> []\<close> obtain s where "segs = [s]"
      by (cases segs) auto
    with ne r sp show ?thesis by (simp add: parent_path_def Let_def)
  qed
qed

text \<open>
  C7. In an iteration of the session whose listing succeeds, the input \<open>..\<close> or
  \<open>cd ..\<close> continues the session with the last segment of the current path removed:
  for a current path that is the segments \<open>segs\<close> joined with slashes (each segment not
  empty and without a slash), the new current path is the segments but the last, joined.
  At the root, where there is no segment, the path stays the root.
\<close>

theorem parent_navigation:
  assumes listed: "list_directory w base_url (current_path ss) = Inr items"
    and line: "text = ''..'' \<or> text = ''cd ..''"
    and segs: "\<forall>seg \<in> set segs. seg \<noteq> [] \<and> CHR ''/'' \<notin> set seg"
    and cur: "current_path ss = py_join ''/'' segs"
  shows "fst (interactive_step w base_url save_dir ss (Line text)) = Continue
    \<and> current_path (snd (interactive_step w base_url save_dir ss (Line text)))
        = py_join ''/'' (butlast segs)"
proof -
  from line have strip: "py_strip text = text"
    by (auto simp: py_strip_def rstrip_chars_def lstrip_chars_def py_isspace_def)
  from line have nq: "py_lower text \<notin> {''q'', ''quit'', ''exit''}" "text \<noteq> []"
    by (auto simp: py_lower_def)
  from listed strip nq line
  have "interactive_step w base_url save_dir ss (Line text)
        = (Continue, ss\<lparr>sys := print_listing items (print_header (current_path ss) (sys ss)),
                           current_path := parent_path (current_path ss)\<rparr>)"
    by (auto simp: interactive_step_def dispatch_def Let_def)
  with cur parent_path_join [OF segs] show ?thesis by simp
qed

theorem parent_navigation_witness:
  "fst (interactive_step example_world ''http://host:6008'' [''save'']
          \<lparr>current_path = ''A/B'', sys = example_state\<rparr> (Line ''..'')) = Continue
   \<and> current_path (snd (interactive_step example_world ''http://host:6008'' [''save'']
          \<lparr>current_path = ''A/B'', sys = example_state\<rparr> (Line ''..''))) = ''A''"
proof -
  let ?ss = "\<lparr>current_path = ''A/B'', sys = example_state\<rparr>"
  have h1: "list_directory example_world ''http://host:6008'' (current_path ?ss) = Inr [(''y.txt'', False)]"
    by (simp add: example_list_AB)
  have h2: "''..'' = ''..'' \<or> ''..'' = ''cd ..''"
    by simp
  have h3: "\<forall>seg \<in> set [''A'', ''B'']. seg \<noteq> [] \<and> CHR ''/'' \<notin> set seg"
    by simp
  have h4: "current_path ?ss = py_join ''/'' [''A'', ''B'']"
    by simp
  from parent_navigation [OF h1 h2 h3 h4, of "[''save'']"] show ?thesis
    by simp
qed

subsection \<open>C6: the forced download\<close>


lemma py_strip_id: "s = [] \<or> (\<not> py_isspace (hd s) \<and> \<not> py_isspace (last s)) \<Longrightarrow> py_strip s = s"
  by (auto simp: py_strip_def lstrip_chars_id rstrip_chars_id)











subsection \<open>C10: the collected paths lie under the folder\<close>

lemma startswith_append: "startswith (p @ s) p"
  by (simp add: startswith_def)

lemma startswith_iff: "startswith s p \<longleftrightarrow> (\<exists>t. s = p @ t)"
  by (auto simp: startswith_def) (metis append_take_drop_id)

lemma startswith_trans: "startswith a b \<Longrightarrow> startswith b c \<Longrightarrow> startswith a c"
  by (auto simp: startswith_iff)

lemma rstrip_chars_append:
  "rstrip_chars P (a @ b) = (if \<forall>c \<in> set b. P c then rstrip_chars P a else a @ rstrip_chars P b)"
  by (simp add: rstrip_chars_def dropWhile_append)

lemma rstrip_chars_idem: "rstrip_chars P (rstrip_chars P s) = rstrip_chars P s"
  by (cases "rstrip_chars P s = []") (auto simp: rstrip_chars_id rstrip_chars_last)

lemma child_prefix:
  "startswith (rstrip_slash (rstrip_slash rp @ ''/'' @ name) @ ''/'') (rstrip_slash rp @ ''/'')"
proof (cases "\<forall>c \<in> set name. is_slash c")
  case True
  then have "rstrip_slash (rstrip_slash rp @ ''/'' @ name) = rstrip_slash rp"
    by (simp add: rstrip_slash_def rstrip_chars_append rstrip_chars_idem is_slash_def)
  then show ?thesis by (simp add: startswith_def)
next
  case False
  have "rstrip_chars is_slash ((rstrip_slash rp @ ''/'') @ name)
        = (rstrip_slash rp @ ''/'') @ rstrip_chars is_slash name"
    using False by (subst rstrip_chars_append) auto
  then have "rstrip_slash (rstrip_slash rp @ ''/'' @ name)
             = rstrip_slash rp @ ''/'' @ rstrip_slash name"
    by (simp add: rstrip_slash_def)
  then show ?thesis by (simp add: startswith_iff)
qed

lemma collect_loop_prefix:
  assumes rec: "\<And>rp' fs'. rp' \<noteq> [] \<Longrightarrow> recurse rp' = Inr fs'
                  \<Longrightarrow> \<forall>f \<in> set fs'. startswith f (rstrip_slash rp' @ ''/'')"
    and rp: "rp \<noteq> []"
  shows "collect_loop recurse rp items acc = Inr fs
         \<Longrightarrow> \<forall>f \<in> set acc. startswith f (rstrip_slash rp @ ''/'')
         \<Longrightarrow> \<forall>f \<in> set fs. startswith f (rstrip_slash rp @ ''/'')"
proof (induction items arbitrary: acc)
  case Nil
  then show ?case by simp
next
  case (Cons item items)
  obtain name is_dir where item: "item = (name, is_dir)"
    by (cases item)
  let ?child = "child_path rp name"
  from rp have child: "?child = rstrip_slash rp @ ''/'' @ name" "?child \<noteq> []"
    by (simp_all add: child_path_def)
  show ?case
  proof (cases "name = ''.'' \<or> name = ''..''")
    case True
    with Cons item show ?thesis by auto
  next
    case False
    show ?thesis
    proof (cases is_dir)
      case True
      with False Cons.prems(1) item obtain sub where
        sub: "recurse ?child = Inr sub"
        and rest: "collect_loop recurse rp items (acc @ sub) = Inr fs"
        by (auto split: sum.splits)
      from rec [OF child(2) sub]
      have below: "\<forall>f \<in> set sub. startswith f (rstrip_slash ?child @ ''/'')" .
      have step: "startswith (rstrip_slash ?child @ ''/'') (rstrip_slash rp @ ''/'')"
        unfolding child(1) by (rule child_prefix)
      have "\<forall>f \<in> set sub. startswith f (rstrip_slash rp @ ''/'')"
      proof
        fix f
        assume "f \<in> set sub"
        with below have "startswith f (rstrip_slash ?child @ ''/'')"
          by blast
        then show "startswith f (rstrip_slash rp @ ''/'')"
          using step by (rule startswith_trans)
      qed
      with Cons.prems(2) have "\<forall>f \<in> set (acc @ sub). startswith f (rstrip_slash rp @ ''/'')"
        by auto
      from Cons.IH [OF rest this] show ?thesis .
    next
      case notdir: False
      with False Cons.prems(1) item
      have rest: "collect_loop recurse rp items (acc @ [?child]) = Inr fs"
        by simp
      have "startswith ?child (rstrip_slash rp @ ''/'')"
        using child(1) by (simp add: startswith_iff)
      with Cons.prems(2) have "\<forall>f \<in> set (acc @ [?child]). startswith f (rstrip_slash rp @ ''/'')"
        by auto
      from Cons.IH [OF rest this] show ?thesis .
    qed
  qed
qed

lemma collect_prefix:
  "rp \<noteq> [] \<Longrightarrow> collect_files_recursive w depth base_url rp = Inr fs
   \<Longrightarrow> \<forall>f \<in> set fs. startswith f (rstrip_slash rp @ ''/'')"
proof (induction depth arbitrary: rp fs)
  case 0
  then show ?case by simp
next
  case (Suc depth)
  from Suc.prems(2) obtain items where
    loop: "collect_loop (collect_files_recursive w depth base_url) rp items [] = Inr fs"
    by (auto split: sum.splits)
  have rec: "\<And>rp' fs'. rp' \<noteq> [] \<Longrightarrow> collect_files_recursive w depth base_url rp' = Inr fs'
                  \<Longrightarrow> \<forall>f \<in> set fs'. startswith f (rstrip_slash rp' @ ''/'')"
    by (rule Suc.IH)
  have start: "\<forall>f \<in> set []. startswith f (rstrip_slash rp @ ''/'')"
    by simp
  from collect_loop_prefix [of "collect_files_recursive w depth base_url" rp items "[]" fs,
      OF rec Suc.prems(1) loop start]
  show ?case .
qed

lemma example_collect_A:
  "collect_files_recursive example_world 5 ''http://host:6008'' ''A'' = Inr [''A/x.txt'', ''A/B/y.txt'']"
  by code_simp

text \<open>
  C10. For a remote path that is not empty, every path that \<open>collect_files_recursive\<close>
  returns starts with the remote path, its trailing slashes removed, and a slash. So the
  test of \<open>download_folder\<close> for this prefix succeeds on every collected path, and the
  relative path is the collected path without the prefix: the branch that keeps the
  collected path whole is not taken.
\<close>

theorem collected_paths_under_folder:
  assumes "remote_path \<noteq> []"
    and "collect_files_recursive w depth base_url remote_path = Inr collected"
    and "file_path \<in> set collected"
  shows "startswith file_path (rstrip_slash remote_path @ ''/'')
    \<and> relative_to (rstrip_slash remote_path @ ''/'') file_path
        = drop (length (rstrip_slash remote_path @ ''/'')) file_path"
  using collect_prefix [OF assms(1,2)] assms(3) by (simp add: relative_to_def)

theorem collected_paths_witness:
  "collect_files_recursive example_world 5 ''http://host:6008'' ''A'' = Inr [''A/x.txt'', ''A/B/y.txt'']
   \<and> startswith ''A/B/y.txt'' (rstrip_slash ''A'' @ ''/'')
   \<and> relative_to (rstrip_slash ''A'' @ ''/'') ''A/B/y.txt'' = ''B/y.txt''"
proof -
  have h1: "''A'' \<noteq> []"
    by simp
  have h3: "''A/B/y.txt'' \<in> set [''A/x.txt'', ''A/B/y.txt'']"
    by simp
  have r: "rstrip_slash ''A'' = ''A''"
    by (simp add: rstrip_slash_def rstrip_chars_def is_slash_def)
  from collected_paths_under_folder [OF h1 example_collect_A h3] example_collect_A r
  show ?thesis by simp
qed

subsection \<open>C4: the collector walks the tree in pre-order\<close>

lemma child_path_spec_join:
  "cur = [] \<or> last cur \<noteq> CHR ''/'' \<Longrightarrow> child_path cur name = spec_join cur name"
  by (auto simp: child_path_def spec_join_def rstrip_slash_def rstrip_chars_id is_slash_def)

lemma spec_join_last:
  assumes "name \<noteq> []" "CHR ''/'' \<notin> set name"
  shows "spec_join cur name = [] \<or> last (spec_join cur name) \<noteq> CHR ''/''"
proof -
  from assms have "last name \<noteq> CHR ''/''"
    using last_in_set by metis
  with assms(1) show ?thesis
    by (simp add: spec_join_def)
qed

lemma collect_loop_tree:
  assumes rec: "\<And>cur' kids. tree_names_ok kids \<Longrightarrow> cur' = [] \<or> last cur' \<noteq> CHR ''/''
                  \<Longrightarrow> serves w base_url cur' kids \<Longrightarrow> height kids < d
                  \<Longrightarrow> recurse cur' = Inr (spec_collect cur' kids)"
    and cur: "cur = [] \<or> last cur \<noteq> CHR ''/''"
  shows "tree_names_ok ts \<Longrightarrow> subdirs_served w base_url cur ts \<Longrightarrow> height ts \<le> d
         \<Longrightarrow> collect_loop recurse cur (map tree_entry ts) acc = Inr (acc @ spec_collect cur ts)"
proof (induction ts arbitrary: acc)
  case Nil
  then show ?case by simp
next
  case (Cons t ts)
  show ?case
  proof (cases t)
    case (TFile name)
    with Cons.prems have rest: "tree_names_ok ts" "subdirs_served w base_url cur ts" "height ts \<le> d"
      by simp_all
    from Cons.IH [OF rest] TFile cur show ?thesis
      by (simp add: child_path_spec_join)
  next
    case (TDir name kids)
    with Cons.prems have rest: "tree_names_ok ts" "subdirs_served w base_url cur ts" "height ts \<le> d"
      by simp_all
    show ?thesis
    proof (cases "name = ''.'' \<or> name = ''..''")
      case True
      with Cons.IH [OF rest] TDir show ?thesis by auto
    next
      case False
      from TDir Cons.prems have nm: "name \<noteq> []" "CHR ''/'' \<notin> set name"
        and kids: "tree_names_ok kids" and h: "height kids < d"
        by simp_all
      from TDir Cons.prems False have "serves w base_url (spec_join cur name) kids"
        by (simp add: serves_def)
      from rec [OF kids spec_join_last [OF nm] this h]
      have "recurse (spec_join cur name) = Inr (spec_collect (spec_join cur name) kids)" .
      with Cons.IH [OF rest] TDir False cur show ?thesis
        by (simp add: child_path_spec_join)
    qed
  qed
qed

text \<open>
  C4. Where the server lists a tree at a remote path and below (every name a single
  segment, the remote path without a trailing slash) and the tree is less deep than the
  recursion limit allows, \<open>collect_files_recursive\<close> returns what the specification's
  collector gives: the files only, in depth-first pre-order and in the server's order
  within each directory, entries named \<open>.\<close> or \<open>..\<close> skipped, each file as the
  current path joined with its name. On the tree \<open>A/{x.txt, B/{y.txt}}\<close> that is
  \<open>A/x.txt\<close>, then \<open>A/B/y.txt\<close> (the witness).
\<close>

theorem collect_is_preorder:
  assumes "tree_names_ok ts"
    and "cur = [] \<or> last cur \<noteq> CHR ''/''"
    and "serves w base_url cur ts"
    and "height ts < depth"
  shows "collect_files_recursive w depth base_url cur = Inr (spec_collect cur ts)"
  using assms
proof (induction depth arbitrary: cur ts)
  case 0
  then show ?case by simp
next
  case (Suc d)
  have rec: "\<And>cur' kids. tree_names_ok kids \<Longrightarrow> cur' = [] \<or> last cur' \<noteq> CHR ''/''
                  \<Longrightarrow> serves w base_url cur' kids \<Longrightarrow> height kids < d
                  \<Longrightarrow> collect_files_recursive w d base_url cur' = Inr (spec_collect cur' kids)"
    by (rule Suc.IH)
  from Suc.prems(3) have listed: "list_directory w base_url cur = Inr (map tree_entry ts)"
    and below: "subdirs_served w base_url cur ts"
    by (simp_all add: serves_def)
  from Suc.prems(4) have h: "height ts \<le> d"
    by simp
  from collect_loop_tree [of w base_url d "collect_files_recursive w d base_url" cur ts "[]",
      OF rec Suc.prems(2) Suc.prems(1) below h] listed
  show ?case by simp
qed

theorem collect_example_witness:
  "tree_names_ok example_tree
   \<and> serves example_world ''http://host:6008'' ''A'' example_tree
   \<and> height example_tree < 5
   \<and> collect_files_recursive example_world 5 ''http://host:6008'' ''A'' = Inr [''A/x.txt'', ''A/B/y.txt'']"
proof -
  have h1: "tree_names_ok example_tree"
    by (simp add: example_tree_def)
  have h2: "''A'' = [] \<or> last ''A'' \<noteq> CHR ''/''"
    by simp
  have h3: "serves example_world ''http://host:6008'' ''A'' example_tree"
    by (simp add: serves_def example_tree_def spec_join_def example_list_A example_list_AB)
  have h4: "height example_tree < 5"
    by (simp add: example_tree_def)
  from collect_is_preorder [OF h1 h2 h3 h4] h1 h3 h4 show ?thesis
    by (simp add: example_tree_def spec_join_def)
qed

subsection \<open>C2: skipping a file that is already there\<close>

lemma get_remote_size_url:
  "get_remote_size w base_url remote_path = Inr r \<Longrightarrow> \<exists>url. file_url w base_url remote_path = Inr url"
  by (auto simp: get_remote_size_def split: sum.splits)

text \<open>
  C2. Where the resolved local path is a regular file (in a directory that exists) and
  the size probe returns a size that is not negative and is the length of the local file,
  \<open>download_file\<close> returns success and skipped, and the state after the call is the
  state before it: no transfer is started, and the local file, like every other file, is
  neither changed nor deleted.
\<close>

theorem skip_when_sizes_match:
  assumes is_file: "disk s (resolve local_path) = Some (File content)"
    and not_root: "resolve local_path \<noteq> []"
    and parent: "is_dir_at (disk s) (butlast (resolve local_path))"
    and probe: "get_remote_size w base_url remote_path = Inr (Some remote_size)"
    and nonneg: "remote_size \<ge> 0"
    and same: "int (length content) = remote_size"
  shows "download_file w base_url remote_path local_path s = (Inr (True, True), s)"
proof -
  from get_remote_size_url [OF probe] obtain url where
    url: "file_url w base_url remote_path = Inr url" ..
  from parent have mk: "mkdir_parents w (disk s) (butlast (resolve local_path)) = Inr (disk s)"
    by (simp add: mkdir_parents_def)
  from is_file not_root probe nonneg same
  have "local_matches w base_url remote_path (resolve local_path) (disk s) = Inr True"
    by (simp add: local_matches_def)
  with url mk show ?thesis
    by (simp add: download_file_def Let_def)
qed

theorem skip_witness:
  "disk example_state (resolve [''save'', ''x.txt'']) = Some (File ''hello'')
   \<and> get_remote_size example_world ''http://host:6008'' ''A/x.txt'' = Inr (Some 5)
   \<and> download_file example_world ''http://host:6008'' ''A/x.txt'' [''save'', ''x.txt''] example_state
       = (Inr (True, True), example_state)"
proof -
  have r: "resolve [''save'', ''x.txt''] = [''save'', ''x.txt'']"
    by (simp add: resolve_def)
  have h1: "disk example_state (resolve [''save'', ''x.txt'']) = Some (File ''hello'')"
    unfolding r by (simp add: example_state_def)
  have h2: "resolve [''save'', ''x.txt''] \<noteq> []"
    unfolding r by simp
  have h3: "is_dir_at (disk example_state) (butlast (resolve [''save'', ''x.txt'']))"
    unfolding r by (simp add: is_dir_at_def example_state_def)
  have h4: "get_remote_size example_world ''http://host:6008'' ''A/x.txt'' = Inr (Some 5)"
    by code_simp
  have h5: "(5::int) \<ge> 0"
    by simp
  have h6: "int (length ''hello'') = 5"
    by simp
  from skip_when_sizes_match [OF h1 h2 h3 h4 h5 h6] h1 h4 show ?thesis
    by simp
qed

subsection \<open>C5: a folder download outlives the failure of a file\<close>

lemma print_accepted:
  "stdout_fault w = (\<lambda>printed text. None) \<Longrightarrow> print w text s = Inr (emit text s)"
  by (simp add: print_def)

lemma folder_file_accepted:
  assumes "stdout_fault w = (\<lambda>printed text. None)"
  shows "folder_file w base_url target_dir prefix file_path s
         = (Inr (), attempt_and_report w base_url target_dir prefix s file_path)"
  by (simp add: folder_file_def attempt_and_report_def Let_def print_accepted [OF assms]
      split: prod.splits sum.splits)

lemma folder_loop_accepted:
  assumes "stdout_fault w = (\<lambda>printed text. None)"
  shows "folder_loop w base_url target_dir prefix fs s
         = (Inr (), foldl (attempt_and_report w base_url target_dir prefix) s fs)"
  by (induction fs arbitrary: s) (simp_all add: folder_file_accepted [OF assms])

lemma example_console: "stdout_fault example_world = (\<lambda>printed text. None)"
  by (simp add: example_world_def)

lemma example_folder_run:
  "out (snd (download_folder example_world 5 ''http://host:6008'' ''A'' [''save''] example_state))
     = [''Downloading 2 file(s) to /save/A'',
        ''  '' @ check_mark @ '': x.txt'',
        ''  '' @ cross_mark @ '' failed: A/B/y.txt: timed out'']
   \<and> transfers (snd (download_folder example_world 5 ''http://host:6008'' ''A'' [''save'']
                        example_state))
     = [(''http://host:6008/A/x.txt'', [''save'', ''A'', ''x.txt'']),
        (''http://host:6008/A/B/y.txt'', [''save'', ''A'', ''B'', ''y.txt''])]"
  by code_simp

text \<open>
  C5, as the code has it. Take a console that accepts every text. Once the files of a
  folder are collected, \<open>download_folder\<close> returns without an exception, whatever
  \<open>download_file\<close> does for each file, and the state it leaves is the state after the
  header is printed and then, for every collected file in order, \<open>download_file\<close> is
  called for the file and one line is printed (\<open>attempt_and_report\<close>): where the call
  raised an exception, the line is the cross mark, \<open>failed:\<close>, the remote path and the
  text of the exception, and the loop goes on with the next file.
\<close>

theorem folder_attempts_every_file:
  assumes console: "stdout_fault w = (\<lambda>printed text. None)"
    and collected: "collect_files_recursive w depth base_url remote_path = Inr collected"
  shows "download_folder w depth base_url remote_path local_base s
         = (Inr (),
            foldl (attempt_and_report w base_url (folder_target remote_path local_base)
                     (folder_prefix remote_path))
                  (emit (folder_header (length collected) (folder_target remote_path local_base)) s)
                  collected)"
  using collected
  by (simp add: download_folder_def Let_def print_accepted [OF console]
      folder_loop_accepted [OF console])

theorem folder_example_witness:
  "stdout_fault example_world = (\<lambda>printed text. None)
   \<and> collect_files_recursive example_world 5 ''http://host:6008'' ''A'' = Inr [''A/x.txt'', ''A/B/y.txt'']
   \<and> fst (download_folder example_world 5 ''http://host:6008'' ''A'' [''save''] example_state) = Inr ()
   \<and> out (snd (download_folder example_world 5 ''http://host:6008'' ''A'' [''save''] example_state))
       = [''Downloading 2 file(s) to /save/A'',
          ''  '' @ check_mark @ '': x.txt'',
          ''  '' @ cross_mark @ '' failed: A/B/y.txt: timed out'']
   \<and> transfers (snd (download_folder example_world 5 ''http://host:6008'' ''A'' [''save'']
                        example_state))
       = [(''http://host:6008/A/x.txt'', [''save'', ''A'', ''x.txt'']),
          (''http://host:6008/A/B/y.txt'', [''save'', ''A'', ''B'', ''y.txt''])]"
proof -
  from folder_attempts_every_file [OF example_console example_collect_A, of "[''save'']" example_state]
  have "fst (download_folder example_world 5 ''http://host:6008'' ''A'' [''save''] example_state) = Inr ()"
    by (simp only: fst_conv)
  with example_console example_collect_A example_folder_run show ?thesis
    by (intro conjI) simp_all
qed

text \<open>
  The claim as the spec words it fails on a console that cannot encode the marks: the
  print of the first file's line raises inside the \<open>try\<close>, the \<open>except\<close> clause prints
  a line with the cross mark, which raises again under no \<open>try\<close>, and the exception
  leaves \<open>download_folder\<close> before the second file is attempted.
\<close>

theorem ascii_console_counterexample:
  "collect_files_recursive ascii_world 5 ''http://host:6008'' ''A'' = Inr [''A/x.txt'', ''A/B/y.txt'']
   \<and> fst (download_folder ascii_world 5 ''http://host:6008'' ''A'' [''save''] example_state)
       = Inl (Raised ValueError ''ordinal not in range(128)'')
   \<and> transfers (snd (download_folder ascii_world 5 ''http://host:6008'' ''A'' [''save''] example_state))
       = [(''http://host:6008/A/x.txt'', [''save'', ''A'', ''x.txt''])]"
  by code_simp

subsection \<open>C1: when the listing falls back to the simple format\<close>

lemma entry_of_error: "entry_of p = Inl e \<Longrightarrow> exc_class_of e = AttributeError"
  by (cases p) (auto simp: Let_def split: if_splits option.splits json.splits)

lemma entries_of_error: "entries_of items acc = Inl e \<Longrightarrow> exc_class_of e = AttributeError"
proof (induction items arbitrary: acc)
  case Nil
  then show ?case by simp
next
  case (Cons p items)
  then show ?case
    by (auto split: sum.splits dest: entry_of_error)
qed

lemma entries_of_no_fallback:
  "(case entries_of items [] of
      Inl e \<Rightarrow> if exc_class_of e = KeyError \<or> exc_class_of e = TypeError then fb else Inl e
    | Inr result \<Rightarrow> Inr result) = entries_of items []"
  by (auto split: sum.splits dest: entries_of_error)

lemma example_json_D:
  "fetch_json example_world ''http://host:6008'' ''D'' = Inr (JObj None [(''paths'', JNull)])"
  by code_simp

lemma example_simple_D:
  "fetch_simple example_world ''http://host:6008'' ''D'' = Inr [(''b.txt'', False), (''sub'', True)]"
  by code_simp

text \<open>
  C1, as the code has it. \<open>list_directory\<close> returns the result of the line-oriented
  listing exactly when the fetch or the parsing of the structured response raises a
  KeyError or a TypeError. In the parsing, that is a member \<open>paths\<close> that is present and
  cannot be iterated (\<open>null\<close>, a number, a boolean). An object without \<open>paths\<close> gives
  the empty listing, with no fallback. Every other failure propagates: a failure of the
  request, and the AttributeError of a response or an entry that is not an object, or of
  an \<open>href\<close> that is not text (the loop over the entries raises nothing else).
\<close>

theorem fallback_on_type_error_only:
  "(\<forall>data. fetch_json w base_url rpath = Inr data \<longrightarrow>
      list_directory w base_url rpath =
        (case json_get data ''paths'' of
           None \<Rightarrow> Inl (Raised AttributeError [])
         | Some None \<Rightarrow> Inr []
         | Some (Some paths) \<Rightarrow>
             (case json_iter paths of
                None \<Rightarrow> fetch_simple w base_url rpath
              | Some items \<Rightarrow> entries_of items [])))
   \<and> (\<forall>e. fetch_json w base_url rpath = Inl e \<longrightarrow>
      list_directory w base_url rpath =
        (if exc_class_of e = KeyError \<or> exc_class_of e = TypeError
         then fetch_simple w base_url rpath else Inl e))
   \<and> (\<forall>items e. entries_of items [] = Inl e \<longrightarrow> exc_class_of e = AttributeError)"
proof (intro conjI allI impI)
  fix data
  assume "fetch_json w base_url rpath = Inr data"
  then show "list_directory w base_url rpath =
        (case json_get data ''paths'' of
           None \<Rightarrow> Inl (Raised AttributeError [])
         | Some None \<Rightarrow> Inr []
         | Some (Some paths) \<Rightarrow>
             (case json_iter paths of
                None \<Rightarrow> fetch_simple w base_url rpath
              | Some items \<Rightarrow> entries_of items []))"
    by (simp add: list_directory_def parse_listing_def entries_of_no_fallback
        split: option.splits)
next
  fix e
  assume "fetch_json w base_url rpath = Inl e"
  then show "list_directory w base_url rpath =
        (if exc_class_of e = KeyError \<or> exc_class_of e = TypeError
         then fetch_simple w base_url rpath else Inl e)"
    by (simp add: list_directory_def)
next
  fix items e
  assume "entries_of items [] = Inl e"
  then show "exc_class_of e = AttributeError"
    by (rule entries_of_error)
qed

theorem fallback_witness:
  "fetch_json example_world ''http://host:6008'' ''D'' = Inr (JObj None [(''paths'', JNull)])
   \<and> list_directory example_world ''http://host:6008'' ''D'' = Inr [(''b.txt'', False), (''sub'', True)]"
  using fallback_on_type_error_only [of example_world "''http://host:6008''" "''D''"]
    example_json_D example_simple_D
  by simp

text \<open>
  The claim as the spec words it fails for a response without \<open>paths\<close>: the folder
  \<open>C\<close> of the example has entries in the line-oriented format, and its listing is
  empty.
\<close>

theorem missing_paths_counterexample:
  "fetch_json example_world ''http://host:6008'' ''C'' = Inr (JObj None [])
   \<and> json_get (JObj None []) ''paths'' = Some None
   \<and> fetch_simple example_world ''http://host:6008'' ''C'' = Inr [(''a.txt'', False), (''sub'', True)]
   \<and> list_directory example_world ''http://host:6008'' ''C'' = Inr []"
  by code_simp

subsection \<open>The URLs of well-formed bases and paths\<close>

lemma plain_scheme_chars: "\<forall>c \<in> set ''https://''. plain_char c"
  by (simp add: plain_char_def)

lemma takeWhile_until: "c \<notin> set a \<Longrightarrow> takeWhile (\<lambda>x. x \<noteq> c) (a @ c # b) = a"
  by (induction a) auto

lemma dropWhile_until: "c \<notin> set a \<Longrightarrow> dropWhile (\<lambda>x. x \<noteq> c) (a @ c # b) = c # b"
  by (induction a) auto

lemma well_formed_base_cases:
  assumes "well_formed_base scheme authority"
  obtains "scheme = ''http''" | "scheme = ''https''"
  using assms unfolding well_formed_base_def by blast

lemma base_plain:
  assumes "well_formed_base scheme authority"
  shows "\<forall>c \<in> set (base_of scheme authority @ ''/''). plain_char c"
proof -
  from assms have a: "\<forall>c \<in> set authority. plain_char c"
    unfolding well_formed_base_def by blast
  have l: "plain_char (CHR ''h'')" "plain_char (CHR ''t'')" "plain_char (CHR ''p'')"
    "plain_char (CHR ''s'')" "plain_char (CHR '':'')" "plain_char (CHR ''/'')"
    by (simp_all add: plain_char_def)
  from assms show ?thesis
  proof (cases rule: well_formed_base_cases)
    case 1
    with a l show ?thesis by (simp add: base_of_def)
  next
    case 2
    with a l show ?thesis by (simp add: base_of_def)
  qed
qed

lemma split_base_http:
  assumes plain: "\<forall>c \<in> set authority. plain_char c" and ns: "CHR ''/'' \<notin> set authority"
  shows "split_base (''http://'' @ authority @ ''/'') = Some (''http'', authority, ''/'')"
proof -
  have allp: "\<forall>c \<in> set (''http://'' @ authority @ ''/''). plain_char c"
    using plain plain_scheme_chars by simp
  have st: "startswith (''http://'' @ authority @ ''/'') ''http://''"
    by (simp add: startswith_def)
  have dr: "drop 7 (''http://'' @ authority @ ''/'') = authority @ ''/''"
    by simp
  have "split_base (''http://'' @ authority @ ''/'')
        = (if \<not> (\<forall>c \<in> set (''http://'' @ authority @ ''/''). plain_char c) then None
           else Some (''http'', authority, ''/''))"
    unfolding split_base_def
    by (simp only: st dr takeWhile_until [OF ns] dropWhile_until [OF ns] if_True)
  also have "\<dots> = Some (''http'', authority, ''/'')"
    using allp by (intro if_not_P) blast
  finally show ?thesis .
qed

lemma split_base_https:
  assumes plain: "\<forall>c \<in> set authority. plain_char c" and ns: "CHR ''/'' \<notin> set authority"
  shows "split_base (''https://'' @ authority @ ''/'') = Some (''https'', authority, ''/'')"
proof -
  have allp: "\<forall>c \<in> set (''https://'' @ authority @ ''/''). plain_char c"
    using plain plain_scheme_chars by simp
  have nst: "\<not> startswith (''https://'' @ authority @ ''/'') ''http://''"
    by (simp add: startswith_def)
  have st: "startswith (''https://'' @ authority @ ''/'') ''https://''"
    by (simp add: startswith_def)
  have dr: "drop 8 (''https://'' @ authority @ ''/'') = authority @ ''/''"
    by simp
  have "split_base (''https://'' @ authority @ ''/'')
        = (if \<not> (\<forall>c \<in> set (''https://'' @ authority @ ''/''). plain_char c) then None
           else Some (''https'', authority, ''/''))"
    unfolding split_base_def
    by (simp only: nst st dr takeWhile_until [OF ns] dropWhile_until [OF ns] if_True if_False)
  also have "\<dots> = Some (''https'', authority, ''/'')"
    using allp by (intro if_not_P) blast
  finally show ?thesis .
qed

lemma split_base_well_formed:
  assumes "well_formed_base scheme authority"
  shows "split_base (base_of scheme authority @ ''/'') = Some (scheme, authority, ''/'')"
proof -
  from assms have plain: "\<forall>c \<in> set authority. plain_char c" and ns: "CHR ''/'' \<notin> set authority"
    unfolding well_formed_base_def by blast+
  from assms show ?thesis
  proof (cases rule: well_formed_base_cases)
    case 1
    with split_base_http [OF plain ns] show ?thesis by (simp add: base_of_def)
  next
    case 2
    with split_base_https [OF plain ns] show ?thesis by (simp add: base_of_def)
  qed
qed

lemma resolve_dots_plain:
  "\<forall>x \<in> set xs. x \<noteq> ''.'' \<and> x \<noteq> ''..'' \<Longrightarrow> resolve_dots xs acc = acc @ xs"
  by (induction xs arbitrary: acc) auto

lemma hd_py_join:
  "segs \<noteq> [] \<Longrightarrow> hd segs \<noteq> [] \<Longrightarrow>
   py_join sep segs \<noteq> [] \<and> hd (py_join sep segs) = hd (hd segs)"
  by (induction sep segs rule: py_join.induct) auto

lemma drop_empty_inner_root:
  assumes "xs \<noteq> []" "\<forall>x \<in> set (butlast xs). x \<noteq> []"
  shows "drop_empty_inner ([[], []] @ xs) = [] # xs"
proof -
  have "butlast (tl ([[], []] @ xs)) = [] # butlast xs"
    using assms(1) by simp
  moreover have "filter (\<lambda>s. s \<noteq> []) ([] # butlast xs) = butlast xs"
    using assms(2) by simp
  moreover have "last ([[], []] @ xs) = last xs"
    using assms(1) by simp
  moreover have "butlast xs @ [last xs] = xs"
    using assms(1) by simp
  ultimately show ?thesis
    by (simp add: drop_empty_inner_def)
qed

lemma merge_paths_root:
  assumes sp: "split_on (CHR ''/'') rpath = xs"
    and nonabs: "take 1 rpath \<noteq> ''/''"
    and inner: "\<forall>x \<in> set (butlast xs). x \<noteq> []"
    and dots: "\<forall>x \<in> set xs. x \<noteq> ''.'' \<and> x \<noteq> ''..''"
    and ne: "xs \<noteq> []"
  shows "merge_paths ''/'' rpath = ''/'' @ py_join ''/'' xs"
proof -
  have bp: "split_on (CHR ''/'') ''/'' = [[], []]"
    by simp
  have dei: "drop_empty_inner ([[], []] @ xs) = [] # xs"
    using ne inner by (rule drop_empty_inner_root)
  have rd: "resolve_dots ([] # xs) [] = [] # xs"
    using dots by (simp add: resolve_dots_plain)
  from ne dots have lastseg: "last ([] # xs) \<noteq> ''.''" "last ([] # xs) \<noteq> ''..''"
    using last_in_set [OF ne] by auto
  have joined: "py_join ''/'' ([] # xs) = ''/'' @ py_join ''/'' xs"
    using ne by (simp add: py_join_Cons)
  have "merge_paths ''/'' rpath = py_join ''/'' ([] # xs)"
    unfolding merge_paths_def Let_def bp sp
    using nonabs dei rd lastseg joined by simp
  with joined show ?thesis by simp
qed


lemma set_py_join: "set (py_join sep segs) \<subseteq> set sep \<union> \<Union> (set ` set segs)"
  by (induction sep segs rule: py_join.induct) auto



lemma well_formed_segment:
  assumes "well_formed_path segs" "seg \<in> set segs"
  shows "seg \<noteq> []" "seg \<noteq> ''.''" "seg \<noteq> ''..''" "CHR ''/'' \<notin> set seg"
    "CHR '':'' \<notin> set seg" "\<forall>c \<in> set seg. plain_char c"
proof -
  from assms have u: "url_segment seg"
    unfolding well_formed_path_def by blast
  from u show "seg \<noteq> []" "seg \<noteq> ''.''" "seg \<noteq> ''..''"
    unfolding url_segment_def by simp_all
  from u have c: "\<forall>c \<in> set seg. plain_char c \<and> c \<noteq> CHR ''/'' \<and> c \<noteq> CHR '':''"
    unfolding url_segment_def by simp
  from c show "CHR ''/'' \<notin> set seg" "CHR '':'' \<notin> set seg" "\<forall>c \<in> set seg. plain_char c"
    by auto
qed

lemma path_chars:
  assumes "well_formed_path segs"
  shows "\<forall>c \<in> set (remote_path_of segs). plain_char c \<and> c \<noteq> CHR '':''"
proof
  fix c
  assume "c \<in> set (remote_path_of segs)"
  then have "c = CHR ''/'' \<or> (\<exists>seg \<in> set segs. c \<in> set seg)"
    using set_py_join [of "''/''" segs] by (auto simp: remote_path_of_def)
  then show "plain_char c \<and> c \<noteq> CHR '':''"
  proof
    assume "c = CHR ''/''"
    then show ?thesis by (simp add: plain_char_def)
  next
    assume "\<exists>seg \<in> set segs. c \<in> set seg"
    then obtain seg where seg: "seg \<in> set segs" and c: "c \<in> set seg"
      by blast
    from well_formed_segment(6) [OF assms seg] c have "plain_char c"
      by auto
    moreover from well_formed_segment(5) [OF assms seg] c have "c \<noteq> CHR '':''"
      by auto
    ultimately show ?thesis ..
  qed
qed

lemma path_start:
  assumes "well_formed_path segs" "segs \<noteq> []"
  shows "remote_path_of segs \<noteq> []" "hd (remote_path_of segs) \<noteq> CHR ''/''"
proof -
  from assms have h: "hd segs \<in> set segs"
    by simp
  from well_formed_segment(1,4) [OF assms(1) h]
  have ne: "hd segs \<noteq> []" and ns: "CHR ''/'' \<notin> set (hd segs)" .
  from ne have "hd (hd segs) \<in> set (hd segs)"
    by (rule hd_in_set)
  with ns have "hd (hd segs) \<noteq> CHR ''/''"
    by auto
  with hd_py_join [OF assms(2) ne, of "''/''"]
  show "remote_path_of segs \<noteq> []" "hd (remote_path_of segs) \<noteq> CHR ''/''"
    by (simp_all add: remote_path_of_def)
qed

lemma plain_reference_path:
  assumes "well_formed_path segs" "segs \<noteq> []"
  shows "plain_reference (remote_path_of segs)" "plain_reference (remote_path_of segs @ ''/'')"
proof -
  note c = path_chars [OF assms(1)] and st = path_start [OF assms]
  from st have ns: "\<not> startswith (remote_path_of segs) ''//''"
    "\<not> startswith (remote_path_of segs @ ''/'') ''//''"
    by (cases "remote_path_of segs"; simp add: startswith_def)+
  have sl: "plain_char (CHR ''/'')"
    by (simp add: plain_char_def)
  from c ns show "plain_reference (remote_path_of segs)"
    unfolding plain_reference_def by blast
  from c ns sl show "plain_reference (remote_path_of segs @ ''/'')"
    unfolding plain_reference_def by auto
qed

lemma merge_file:
  assumes "well_formed_path segs" "segs \<noteq> []"
  shows "merge_paths ''/'' (remote_path_of segs) = ''/'' @ remote_path_of segs"
proof -
  note seg = well_formed_segment [OF assms(1)]
  have sp: "split_on (CHR ''/'') (remote_path_of segs) = segs"
    unfolding remote_path_of_def using assms(2) seg(4) by (intro split_on_join) auto
  from path_start [OF assms] have nonabs: "take 1 (remote_path_of segs) \<noteq> ''/''"
    by (cases "remote_path_of segs") auto
  have inner: "\<forall>x \<in> set (butlast segs). x \<noteq> []"
    using seg(1) by (auto dest: in_set_butlastD)
  have dots: "\<forall>x \<in> set segs. x \<noteq> ''.'' \<and> x \<noteq> ''..''"
    using seg(2,3) by blast
  from merge_paths_root [OF sp nonabs inner dots assms(2)] show ?thesis
    by (simp add: remote_path_of_def)
qed

lemma merge_dir:
  assumes "well_formed_path segs" "segs \<noteq> []"
  shows "merge_paths ''/'' (remote_path_of segs @ ''/'') = ''/'' @ remote_path_of segs @ ''/''"
proof -
  note seg = well_formed_segment [OF assms(1)]
  have pj: "remote_path_of segs @ ''/'' = py_join ''/'' (segs @ [[]])"
    using assms(2) by (simp add: remote_path_of_def py_join_snoc)
  have sp: "split_on (CHR ''/'') (remote_path_of segs @ ''/'') = segs @ [[]]"
    unfolding pj using seg(4) by (intro split_on_join) auto
  from path_start [OF assms] have nonabs: "take 1 (remote_path_of segs @ ''/'') \<noteq> ''/''"
    by (cases "remote_path_of segs") auto
  have inner: "\<forall>x \<in> set (butlast (segs @ [[]])). x \<noteq> []"
    using seg(1) by simp
  have dots: "\<forall>x \<in> set (segs @ [[]]). x \<noteq> ''.'' \<and> x \<noteq> ''..''"
    using seg(2,3) by auto
  have ne: "segs @ [[]] \<noteq> []"
    by simp
  from merge_paths_root [OF sp nonabs inner dots ne] pj show ?thesis
    by simp
qed

lemma urlunsplit_rooted:
  assumes "well_formed_base scheme authority"
  shows "urlunsplit scheme authority (''/'' @ x) = base_of scheme authority @ ''/'' @ x"
proof -
  from assms have "authority \<noteq> []" "scheme \<noteq> []"
    unfolding well_formed_base_def by auto
  then show ?thesis
    by (simp add: urlunsplit_def base_of_def Let_def)
qed

lemma urljoin_well_formed:
  assumes base: "well_formed_base scheme authority"
    and ref: "plain_reference ref" "ref \<noteq> []"
    and merged: "merge_paths ''/'' ref = ''/'' @ x"
  shows "urljoin w (base_of scheme authority @ ''/'') ref = Inr (base_of scheme authority @ ''/'' @ x)"
proof -
  let ?b = "base_of scheme authority @ ''/''"
  have nb: "?b \<noteq> []"
    by simp
  have "urljoin w ?b ref =
        (case split_base ?b of
           Some (scheme, netloc, bpath) \<Rightarrow> Inr (urlunsplit scheme netloc (merge_paths bpath ref))
         | None \<Rightarrow> urljoin_other w ?b ref)"
    unfolding urljoin_def using nb ref by (simp only: if_False if_True)
  also have "\<dots> = Inr (urlunsplit scheme authority (merge_paths ''/'' ref))"
    by (simp only: split_base_well_formed [OF base] option.case prod.case)
  also have "\<dots> = Inr (base_of scheme authority @ ''/'' @ x)"
    by (simp only: merged urlunsplit_rooted [OF base])
  finally show ?thesis .
qed


lemma unwrap_id:
  assumes "\<not> py_isspace (hd url)" "\<not> py_isspace (last url)" "take 1 url \<noteq> ''<''"
    "take 4 url \<noteq> ''URL:''"
  shows "unwrap url = url"
  using assms by (simp add: unwrap_def Let_def py_strip_id)

lemma Request_http:
  assumes tag: "CHR ''#'' \<notin> set rest" and last: "rest = [] \<or> \<not> py_isspace (last rest)"
  shows "Request (''http://'' @ rest) = Inr (''http://'' @ rest)"
    and "Request (''https://'' @ rest) = Inr (''https://'' @ rest)"
proof -
  have l1: "\<not> py_isspace (last (''http://'' @ rest))" "\<not> py_isspace (last (''https://'' @ rest))"
    using last by (auto simp: py_isspace_def)
  have h1: "\<not> py_isspace (hd (''http://'' @ rest))" "\<not> py_isspace (hd (''https://'' @ rest))"
    by (simp_all add: py_isspace_def)
  have u1: "unwrap (''http://'' @ rest) = ''http://'' @ rest"
    by (rule unwrap_id [OF h1(1) l1(1)]) simp_all
  have u2: "unwrap (''https://'' @ rest) = ''https://'' @ rest"
    by (rule unwrap_id [OF h1(2) l1(2)]) simp_all
  have d1: "drop_tag (''http://'' @ rest) = ''http://'' @ rest"
    "drop_tag (''https://'' @ rest) = ''https://'' @ rest"
    using tag by (simp_all add: drop_tag_def)
  have t1: "has_url_type (''http://'' @ rest)" "has_url_type (''https://'' @ rest)"
    by (simp_all add: has_url_type_def)
  show "Request (''http://'' @ rest) = Inr (''http://'' @ rest)"
    unfolding Request_def u1 d1 using t1 by simp
  show "Request (''https://'' @ rest) = Inr (''https://'' @ rest)"
    unfolding Request_def u2 d1 using t1 by simp
qed

lemma Request_well_formed:
  assumes base: "well_formed_base scheme authority"
    and tag: "CHR ''#'' \<notin> set rest" and last: "rest = [] \<or> \<not> py_isspace (last rest)"
  shows "Request (base_of scheme authority @ ''/'' @ rest) = Inr (base_of scheme authority @ ''/'' @ rest)"
proof -
  from base have "\<forall>c \<in> set authority. plain_char c"
    unfolding well_formed_base_def by auto
  then have "CHR ''#'' \<notin> set authority"
    by (auto simp: plain_char_def)
  with tag have tag': "CHR ''#'' \<notin> set (authority @ ''/'' @ rest)"
    by simp
  from last have last': "authority @ ''/'' @ rest = [] \<or> \<not> py_isspace (last (authority @ ''/'' @ rest))"
    by (auto simp: py_isspace_def)
  from base show ?thesis
  proof (cases rule: well_formed_base_cases)
    case 1
    with Request_http(1) [OF tag' last'] show ?thesis by (simp add: base_of_def)
  next
    case 2
    with Request_http(2) [OF tag' last'] show ?thesis by (simp add: base_of_def)
  qed
qed

lemma file_url_well_formed:
  assumes base: "well_formed_base scheme authority" and path: "well_formed_path segs"
  shows "file_url w (base_of scheme authority) (remote_path_of segs)
         = Inr (base_of scheme authority @ ''/'' @ remote_path_of segs)"
proof (cases "segs = []")
  case True
  then show ?thesis
    by (simp add: file_url_def remote_path_of_def lstrip_slash_def lstrip_chars_def urljoin_def)
next
  case False
  from path_start [OF path False] have ls: "lstrip_slash (remote_path_of segs) = remote_path_of segs"
    by (simp add: lstrip_slash_def lstrip_chars_id is_slash_def)
  from urljoin_well_formed [OF base plain_reference_path(1) [OF path False]
      path_start(1) [OF path False] merge_file [OF path False], of w]
  show ?thesis
    by (simp add: file_url_def ls)
qed

lemma marker_ok:
  assumes "marker = ''?json'' \<or> marker = ''?simple''"
  shows "CHR ''#'' \<notin> set marker" "marker \<noteq> []" "\<not> py_isspace (last marker)"
  using assms by (auto simp: py_isspace_def)

lemma listing_url_well_formed:
  assumes base: "well_formed_base scheme authority" and path: "well_formed_path segs"
    and ne: "segs \<noteq> []" and marker: "marker = ''?json'' \<or> marker = ''?simple''"
  shows "listing_url w (base_of scheme authority) (remote_path_of segs) marker
         = Inr (base_of scheme authority @ ''/'' @ remote_path_of segs @ ''/'' @ marker)"
proof -
  let ?p = "remote_path_of segs"
  note st = path_start [OF path ne]
  from st have ls: "lstrip_slash ?p = ?p"
    by (simp add: lstrip_slash_def lstrip_chars_id is_slash_def)
  have dne: "?p @ ''/'' \<noteq> []"
    by simp
  have joined: "urljoin w (base_of scheme authority @ ''/'') (?p @ ''/'')
                = Inr (base_of scheme authority @ ''/'' @ ?p @ ''/'')"
    using urljoin_well_formed [OF base plain_reference_path(2) [OF path ne] dne
        merge_dir [OF path ne], of w] .
  have ends: "endswith (base_of scheme authority @ ''/'' @ ?p @ ''/'') ''/''"
    by (simp add: endswith_slash_iff)
  from path_chars [OF path] have "CHR ''#'' \<notin> set ?p"
    by (auto simp: plain_char_def)
  with marker_ok [OF marker] have tag: "CHR ''#'' \<notin> set (?p @ ''/'' @ marker)"
    by simp
  from marker_ok [OF marker]
  have last: "?p @ ''/'' @ marker = [] \<or> \<not> py_isspace (last (?p @ ''/'' @ marker))"
    by simp
  from Request_well_formed [OF base tag last]
  have req: "Request ((base_of scheme authority @ ''/'' @ ?p @ ''/'') @ marker)
             = Inr (base_of scheme authority @ ''/'' @ ?p @ ''/'' @ marker)"
    by simp
  show ?thesis
    unfolding listing_url_def using st(1) ls joined ends req by simp
qed

lemma merge_dot: "merge_paths ''/'' ''./'' = ''/''"
  by code_simp

lemma listing_url_root:
  assumes base: "well_formed_base scheme authority"
    and marker: "marker = ''?json'' \<or> marker = ''?simple''"
  shows "listing_url w (base_of scheme authority) [] marker
         = Inr (base_of scheme authority @ ''/'' @ marker)"
proof -
  have ref: "plain_reference ''./''" "''./'' \<noteq> []"
    by (simp_all add: plain_reference_def plain_char_def startswith_def)
  have m: "merge_paths ''/'' ''./'' = ''/'' @ []"
    by (simp add: merge_dot)
  have joined: "urljoin w (base_of scheme authority @ ''/'') ''./''
                = Inr (base_of scheme authority @ ''/'')"
    using urljoin_well_formed [OF base ref m, of w] by simp
  have ls: "lstrip_slash ''.'' = ''.''"
    by (simp add: lstrip_slash_def lstrip_chars_def is_slash_def)
  have ends: "endswith (base_of scheme authority @ ''/'') ''/''"
    by (simp add: endswith_slash_iff)
  from marker_ok [OF marker]
  have "Request (base_of scheme authority @ ''/'' @ marker) = Inr (base_of scheme authority @ ''/'' @ marker)"
    by (intro Request_well_formed [OF base]) simp_all
  then show ?thesis
    unfolding listing_url_def using ls joined ends by simp
qed


lemma base_path_inj:
  assumes b1: "well_formed_base scheme authority" and b2: "well_formed_base scheme' authority'"
    and eq: "base_of scheme authority @ ''/'' @ x = base_of scheme' authority' @ ''/'' @ y"
  shows "scheme = scheme' \<and> authority = authority' \<and> x = y"
proof -
  from b1 b2 have ns: "CHR ''/'' \<notin> set authority" "CHR ''/'' \<notin> set authority'"
    unfolding well_formed_base_def by auto
  have same: "authority @ ''/'' @ x = authority' @ ''/'' @ y \<Longrightarrow> authority = authority' \<and> x = y"
  proof -
    assume e: "authority @ ''/'' @ x = authority' @ ''/'' @ y"
    then have "takeWhile (\<lambda>c. c \<noteq> CHR ''/'') (authority @ CHR ''/'' # x)
               = takeWhile (\<lambda>c. c \<noteq> CHR ''/'') (authority' @ CHR ''/'' # y)"
      by simp
    then have a: "authority = authority'"
      by (simp only: takeWhile_until [OF ns(1)] takeWhile_until [OF ns(2)])
    with e show ?thesis by simp
  qed
  from b1 show ?thesis
  proof (cases rule: well_formed_base_cases)
    case 1
    from b2 show ?thesis
    proof (cases rule: well_formed_base_cases)
      case 1
      with \<open>scheme = ''http''\<close> eq same show ?thesis by (simp add: base_of_def)
    next
      case 2
      with \<open>scheme = ''http''\<close> eq show ?thesis by (simp add: base_of_def)
    qed
  next
    case 2
    from b2 show ?thesis
    proof (cases rule: well_formed_base_cases)
      case 1
      with \<open>scheme = ''https''\<close> eq show ?thesis by (simp add: base_of_def)
    next
      case 2
      with \<open>scheme = ''https''\<close> eq same show ?thesis by (simp add: base_of_def)
    qed
  qed
qed

lemma remote_path_Nil:
  "well_formed_path segs \<Longrightarrow> remote_path_of segs = [] \<longleftrightarrow> segs = []"
  unfolding remote_path_of_def
  by (rule py_join_eq_Nil) (auto dest: well_formed_segment(1))

lemma listing_url_value:
  assumes "well_formed_base scheme authority" "well_formed_path segs"
    "marker = ''?json'' \<or> marker = ''?simple''"
  shows "listing_url w (base_of scheme authority) (remote_path_of segs) marker
         = Inr (base_of scheme authority @ ''/''
                @ (if segs = [] then marker else remote_path_of segs @ ''/'' @ marker))"
proof (cases "segs = []")
  case True
  with listing_url_root [OF assms(1,3), of w] show ?thesis
    by (simp add: remote_path_of_def)
next
  case False
  with listing_url_well_formed [OF assms(1,2) False assms(3), of w] show ?thesis
    by simp
qed

lemma example_base: "well_formed_base ''http'' ''host:6008''"
  by (simp add: well_formed_base_def plain_char_def)

lemma example_path: "well_formed_path [''A'', ''B'', ''y.txt'']"
  by (simp add: well_formed_path_def url_segment_def plain_char_def)

subsection \<open>C8: the URLs of a listing and of a file\<close>

text \<open>
  C8, as the code has it. Take a well-formed base (\<open>http\<close> or \<open>https\<close> and an
  authority), a remote path of well-formed segments, and one of the two query markers.
  The URL of the listing is the base, a slash, the path, a slash and the marker where the
  path is not empty, and the base, a slash and the marker at the root, the empty path:
  there the code joins \<open>./\<close>, which adds no segment. The URL of the file is the base,
  a slash and the path. So without its marker the URL of a listing is the URL of the
  directory with a slash at its end. Both constructions are injective: two well-formed
  inputs with the same URL have the same base and the same path.
\<close>

theorem url_construction:
  assumes base: "well_formed_base scheme authority"
    and path: "well_formed_path segs"
    and marker: "marker = ''?json'' \<or> marker = ''?simple''"
  shows "listing_url w (base_of scheme authority) (remote_path_of segs) marker
           = Inr (if segs = [] then base_of scheme authority @ ''/'' @ marker
                  else base_of scheme authority @ ''/'' @ remote_path_of segs @ ''/'' @ marker)
    \<and> file_url w (base_of scheme authority) (remote_path_of segs)
           = Inr (base_of scheme authority @ ''/'' @ remote_path_of segs)
    \<and> (\<forall>scheme' authority' segs'.
          well_formed_base scheme' authority' \<and> well_formed_path segs'
          \<and> (file_url w (base_of scheme' authority') (remote_path_of segs')
                = file_url w (base_of scheme authority) (remote_path_of segs)
              \<or> listing_url w (base_of scheme' authority') (remote_path_of segs') marker
                = listing_url w (base_of scheme authority) (remote_path_of segs) marker)
          \<longrightarrow> base_of scheme' authority' = base_of scheme authority
              \<and> remote_path_of segs' = remote_path_of segs)"
proof (intro conjI allI impI)
  show "listing_url w (base_of scheme authority) (remote_path_of segs) marker
           = Inr (if segs = [] then base_of scheme authority @ ''/'' @ marker
                  else base_of scheme authority @ ''/'' @ remote_path_of segs @ ''/'' @ marker)"
    using listing_url_value [OF base path marker, of w] by simp
next
  show "file_url w (base_of scheme authority) (remote_path_of segs)
           = Inr (base_of scheme authority @ ''/'' @ remote_path_of segs)"
    by (rule file_url_well_formed [OF base path])
next
  fix scheme' authority' segs'
  assume a: "well_formed_base scheme' authority' \<and> well_formed_path segs'
          \<and> (file_url w (base_of scheme' authority') (remote_path_of segs')
                = file_url w (base_of scheme authority) (remote_path_of segs)
              \<or> listing_url w (base_of scheme' authority') (remote_path_of segs') marker
                = listing_url w (base_of scheme authority) (remote_path_of segs) marker)"
  then have base': "well_formed_base scheme' authority'" and path': "well_formed_path segs'"
    by simp_all
  let ?x = "if segs = [] then marker else remote_path_of segs @ ''/'' @ marker"
  let ?x' = "if segs' = [] then marker else remote_path_of segs' @ ''/'' @ marker"
  from a consider
    (same_file) "file_url w (base_of scheme' authority') (remote_path_of segs')
            = file_url w (base_of scheme authority) (remote_path_of segs)"
  | (same_listing) "listing_url w (base_of scheme' authority') (remote_path_of segs') marker
            = listing_url w (base_of scheme authority) (remote_path_of segs) marker"
    by blast
  then have "scheme' = scheme \<and> authority' = authority \<and> remote_path_of segs' = remote_path_of segs"
  proof cases
    case same_file
    then have "base_of scheme' authority' @ ''/'' @ remote_path_of segs'
               = base_of scheme authority @ ''/'' @ remote_path_of segs"
      by (simp only: file_url_well_formed [OF base path] file_url_well_formed [OF base' path']
          sum.inject)
    from base_path_inj [OF base' base this] show ?thesis .
  next
    case same_listing
    then have "base_of scheme' authority' @ ''/'' @ ?x' = base_of scheme authority @ ''/'' @ ?x"
      by (simp only: listing_url_value [OF base path marker]
          listing_url_value [OF base' path' marker] sum.inject)
    from base_path_inj [OF base' base this]
    have s: "scheme' = scheme" "authority' = authority" and x: "?x' = ?x"
      by simp_all
    from x remote_path_Nil [OF path] remote_path_Nil [OF path']
    have "remote_path_of segs' = remote_path_of segs"
      by (auto split: if_splits dest: arg_cong [where f = length])
    with s show ?thesis by simp
  qed
  then show "base_of scheme' authority' = base_of scheme authority"
    and "remote_path_of segs' = remote_path_of segs"
    by simp_all
qed

theorem url_construction_witness:
  "well_formed_base ''http'' ''host:6008'' \<and> well_formed_path [''A'', ''B'', ''y.txt'']
   \<and> listing_url example_world ''http://host:6008'' ''A/B/y.txt'' ''?json''
       = Inr ''http://host:6008/A/B/y.txt/?json''
   \<and> file_url example_world ''http://host:6008'' ''A/B/y.txt'' = Inr ''http://host:6008/A/B/y.txt''"
proof -
  have m: "''?json'' = ''?json'' \<or> ''?json'' = ''?simple''"
    by simp
  from url_construction [OF example_base example_path m, of example_world]
  have "listing_url example_world (base_of ''http'' ''host:6008'')
          (remote_path_of [''A'', ''B'', ''y.txt'']) ''?json''
        = Inr (base_of ''http'' ''host:6008'' @ ''/'' @ remote_path_of [''A'', ''B'', ''y.txt'']
               @ ''/'' @ ''?json'')"
    and "file_url example_world (base_of ''http'' ''host:6008'') (remote_path_of [''A'', ''B'', ''y.txt''])
        = Inr (base_of ''http'' ''host:6008'' @ ''/'' @ remote_path_of [''A'', ''B'', ''y.txt''])"
    by simp_all
  with example_base example_path show ?thesis
    by (simp add: base_of_def remote_path_of_def)
qed

text \<open>
  The claim as the spec words it fails at the root: the base, a slash, the empty path, a
  slash and the marker have two slashes before the marker, and the code builds one.
\<close>

theorem root_listing_url_counterexample:
  "listing_url example_world ''http://host:6008'' [] ''?json'' = Inr ''http://host:6008/?json''
   \<and> ''http://host:6008/?json'' \<noteq> ''http://host:6008'' @ ''/'' @ [] @ ''/'' @ ''?json''"
  by code_simp

subsection \<open>C9: the size probe\<close>




end
